theory Spec2Isabelle
  imports Main
begin

section \<open>Errors\<close>

text \<open>
  The error values that \<^verbatim>\<open>queries.go\<close> builds: \<^verbatim>\<open>errors.New\<close>, \<^verbatim>\<open>errors.Wrap\<close>,
  \<^verbatim>\<open>notFound(kind).WithID(id)\<close>, \<^verbatim>\<open>notFound(kind).WithName(name)\<close>,
  \<^verbatim>\<open>alreadyExists(kind, id)\<close>, the sentinels \<^verbatim>\<open>sql.ErrTxDone\<close> and \<^verbatim>\<open>sql.ErrNoRows\<close>,
  and an opaque error reported by the database driver.
\<close>

datatype error =
    New string
  | Wrap error string
  | NotFoundID string nat
  | NotFoundName string string
  | AlreadyExists string nat
  | ErrTxDone
  | ErrNoRows
  | Driver string

text \<open>What a call hands back: a returned error value (\<open>None\<close> is Go's \<^verbatim>\<open>nil\<close>), or a
  panic: the one \<^verbatim>\<open>ApplyQueries\<close> raises carries the rollback error and the error being
  handled, the other is the runtime's on a field access through a nil pointer.\<close>

datatype outcome = Returned "error option" | Panicked error error | NilDereference

section \<open>The queries table\<close>

text \<open>
  \<^verbatim>\<open>fleet.Query\<close> and \<^verbatim>\<open>fleet.Pack\<close> are declared outside the files at hand; these are
  the fields that \<^verbatim>\<open>queries.go\<close> and the pack tests read and write. \<open>AuthorID\<close> and
  \<open>PackType\<close> are pointers in Go, \<open>Packs\<close> a slice that may be \<^verbatim>\<open>nil\<close> (\<open>None\<close>) or
  allocated (\<open>Some\<close>, possibly empty).
\<close>

record Pack =
  PackID :: nat
  PackName :: string
  PackDescription :: string
  PackPlatform :: string
  PackDisabled :: bool
  PackType :: "string option"
  LabelIDs :: "nat list"
  HostIDs :: "nat list"
  TeamIDs :: "nat list"

record Query =
  ID :: nat
  Name :: string
  Description :: string
  Query :: string
  AuthorID :: "nat option"
  Saved :: bool
  ObserverCanRun :: bool
  Packs :: "Pack list option"

text \<open>
  A row of table \<^verbatim>\<open>queries\<close>. The six data columns are those named in the statements of
  \<^verbatim>\<open>queries.go\<close>; \<open>row_id\<close> is the \<^verbatim>\<open>id\<close> of \<^verbatim>\<open>WHERE id = ?\<close>.

  Modelled from the spec: the creation time of a row (\<open>row_created_at\<close>) and the
  uniqueness of \<^verbatim>\<open>name\<close> ("a queries table keyed by unique name"); the schema is not
  among the source files. Any further column lives in the record's extension.
\<close>

record queries_row =
  row_id :: nat
  row_created_at :: nat
  row_name :: string
  row_description :: string
  row_query :: string
  row_author_id :: "nat option"
  row_saved :: bool
  row_observer_can_run :: bool

type_synonym 'a queries_table = "'a queries_row_scheme list"

definition fresh_id :: "'a queries_table \<Rightarrow> nat" where
  "fresh_id t = Suc (fold max (map row_id t) 0)"

text \<open>
  The statement of \<^verbatim>\<open>ApplyQueries\<close>:
  \<^verbatim>\<open>INSERT INTO queries (name, description, query, author_id, saved, observer_can_run)
  VALUES (?, ?, ?, ?, true, ?) ON DUPLICATE KEY UPDATE name = VALUES(name), ...\<close>.
  The values row is built first, with the literal \<^verbatim>\<open>true\<close> in column \<^verbatim>\<open>saved\<close>; a row
  holding the same unique name takes the six listed columns from the values row, otherwise
  the values row is inserted with a new identifier, the creation time \<open>now\<close> and the
  default extension \<open>dflt\<close>.
\<close>

definition insert_values ::
  "string \<Rightarrow> string \<Rightarrow> string \<Rightarrow> nat \<Rightarrow> bool \<Rightarrow> queries_row" where
  "insert_values n d b a ocr =
     \<lparr>row_id = 0, row_created_at = 0, row_name = n, row_description = d, row_query = b,
      row_author_id = Some a, row_saved = True, row_observer_can_run = ocr\<rparr>"

definition on_duplicate_key_update :: "queries_row \<Rightarrow> 'a queries_row_scheme \<Rightarrow> 'a queries_row_scheme" where
  "on_duplicate_key_update v r =
     r\<lparr>row_name := row_name v, row_description := row_description v, row_query := row_query v,
       row_author_id := row_author_id v, row_saved := row_saved v,
       row_observer_can_run := row_observer_can_run v\<rparr>"

definition insert_row :: "nat \<Rightarrow> 'a \<Rightarrow> queries_row \<Rightarrow> 'a queries_table \<Rightarrow> 'a queries_row_scheme" where
  "insert_row now dflt v t =
     \<lparr>row_id = fresh_id t, row_created_at = now, row_name = row_name v,
      row_description = row_description v, row_query = row_query v,
      row_author_id = row_author_id v, row_saved = row_saved v,
      row_observer_can_run = row_observer_can_run v, \<dots> = dflt\<rparr>"

definition exec_upsert :: "nat \<Rightarrow> 'a \<Rightarrow> queries_row \<Rightarrow> 'a queries_table \<Rightarrow> 'a queries_table" where
  "exec_upsert now dflt v t =
     (if list_ex (\<lambda>r. row_name r = row_name v) t
      then map (\<lambda>r. if row_name r = row_name v then on_duplicate_key_update v r else r) t
      else t @ [insert_row now dflt v t])"

section \<open>The database handle\<close>

text \<open>
  The driver and the server are outside the program. Every call on them that can return an
  error takes that error from this record: \<open>None\<close> when the call goes through.
  \<open>exec_fault i\<close> is the answer to the \<open>i\<close>-th \<^verbatim>\<open>ExecContext\<close> of a call (from 0),
  \<open>clock\<close> the server's time, \<open>row_default\<close> the defaults of the columns that no statement
  names.
\<close>

record 'a backend =
  begin_fault :: "error option"
  prepare_fault :: "error option"
  exec_fault :: "nat \<Rightarrow> error option"
  commit_fault :: "error option"
  rollback_fault :: "error option"
  rows_affected_fault :: "error option"
  select_fault :: "error option"
  clock :: nat
  row_default :: 'a

text \<open>The calls a function makes on its transaction, in order.\<close>

datatype tx_call = BeginTxx | PrepareContext | ExecContext string | StmtClose | Commit | Rollback

record 'a applied =
  outcome :: outcome
  table :: "'a queries_table"
  calls :: "tx_call list"

section \<open>ApplyQueries\<close>

text \<open>
  The loop of \<^verbatim>\<open>ApplyQueries\<close> (lines 55 to 63), run on the transaction's view \<open>t\<close> of
  the table. \<open>i\<close> counts the executions so far; the result carries the view and the calls
  made, or the error that ended the loop together with the calls made until then.
\<close>

fun apply_loop ::
  "'a backend \<Rightarrow> nat \<Rightarrow> Query list \<Rightarrow> nat \<Rightarrow> 'a queries_table \<Rightarrow> tx_call list
     \<Rightarrow> (error \<times> tx_call list) + ('a queries_table \<times> tx_call list)" where
  "apply_loop env authorID [] i t cs = Inr (t, cs)"
| "apply_loop env authorID (q # qs) i t cs =
     (if Name q = [] then Inl (New ''query name must not be empty'', cs)
      else (case exec_fault env i of
              Some e \<Rightarrow> Inl (Wrap e ''exec ApplyQueries insert'', cs @ [ExecContext (Name q)])
            | None \<Rightarrow>
                apply_loop env authorID qs (Suc i)
                  (exec_upsert (clock env) (row_default env)
                     (insert_values (Name q) (Description q) (Query q) authorID (ObserverCanRun q)) t)
                  (cs @ [ExecContext (Name q)])))"

text \<open>
  The deferred function of lines 19 to 30, entered with a non-nil \<^verbatim>\<open>err\<close>: it calls
  \<^verbatim>\<open>tx.Rollback()\<close> and panics when that returns an error other than
  \<^verbatim>\<open>sql.ErrTxDone\<close>. The table is the committed one, \<open>db\<close>: the transaction's view is
  dropped.
\<close>

definition rollback_exit ::
  "'a backend \<Rightarrow> 'a queries_table \<Rightarrow> error \<Rightarrow> tx_call list \<Rightarrow> 'a applied" where
  "rollback_exit env db err cs =
     (case rollback_fault env of
        None \<Rightarrow> \<lparr>outcome = Returned (Some err), table = db, calls = cs @ [Rollback]\<rparr>
      | Some rbErr \<Rightarrow>
          if rbErr \<noteq> ErrTxDone
          then \<lparr>outcome = Panicked rbErr err, table = db, calls = cs @ [Rollback]\<rparr>
          else \<lparr>outcome = Returned (Some err), table = db, calls = cs @ [Rollback]\<rparr>)"

text \<open>
  \<^verbatim>\<open>ApplyQueries\<close>. Deferred calls run last in, first out: \<^verbatim>\<open>stmt.Close()\<close>, then the
  rollback function. A \<^verbatim>\<open>Commit\<close> that returns an error has not made the view durable.
  The slice holds pointers; \<open>queries\<close> lists the queries they point to, none of them nil.
\<close>

definition ApplyQueries ::
  "'a backend \<Rightarrow> 'a queries_table \<Rightarrow> nat \<Rightarrow> Query list \<Rightarrow> 'a applied" where
  "ApplyQueries env db authorID queries =
     (case begin_fault env of
        Some e \<Rightarrow>
          \<lparr>outcome = Returned (Some (Wrap e ''begin ApplyQueries transaction'')),
           table = db, calls = [BeginTxx]\<rparr>
      | None \<Rightarrow>
          (case prepare_fault env of
             Some e \<Rightarrow>
               rollback_exit env db (Wrap e ''prepare ApplyQueries insert'')
                 [BeginTxx, PrepareContext]
           | None \<Rightarrow>
               (case apply_loop env authorID queries 0 db [BeginTxx, PrepareContext] of
                  Inl (err, cs) \<Rightarrow> rollback_exit env db err (cs @ [StmtClose])
                | Inr (t, cs) \<Rightarrow>
                    (case commit_fault env of
                       Some e \<Rightarrow>
                         rollback_exit env db (Wrap e ''commit ApplyQueries transaction'')
                           (cs @ [Commit, StmtClose])
                     | None \<Rightarrow>
                         \<lparr>outcome = Returned None, table = t,
                          calls = cs @ [Commit, StmtClose]\<rparr>))))"

section \<open>SaveQuery\<close>

text \<open>
  The statement of \<^verbatim>\<open>SaveQuery\<close>:
  \<^verbatim>\<open>UPDATE queries SET name = ?, description = ?, query = ?, author_id = ?, saved = ?,
  observer_can_run = ? WHERE id = ?\<close>.
  It writes the six columns of every row the \<^verbatim>\<open>WHERE\<close> clause selects. The unique key on
  \<^verbatim>\<open>name\<close> refuses the statement when a selected row would take the name of another row.

  Modelled from the spec: the count that \<^verbatim>\<open>RowsAffected\<close> reports is the number of rows
  the \<^verbatim>\<open>WHERE\<close> clause selects ("\<^verbatim>\<open>SaveQuery\<close> on a nonexistent identifier is a NotFound
  error (zero rows affected)"); the connection settings that decide what the driver counts
  are not among the source files.
\<close>

definition set_columns :: "Query \<Rightarrow> 'a queries_row_scheme \<Rightarrow> 'a queries_row_scheme" where
  "set_columns q r =
     r\<lparr>row_name := Name q, row_description := Description q, row_query := Query q,
       row_author_id := AuthorID q, row_saved := Saved q,
       row_observer_can_run := ObserverCanRun q\<rparr>"

definition name_taken :: "Query \<Rightarrow> 'a queries_table \<Rightarrow> bool" where
  "name_taken q t = list_ex (\<lambda>r. row_id r \<noteq> ID q \<and> row_name r = Name q) t"

definition exec_update :: "Query \<Rightarrow> 'a queries_table \<Rightarrow> error + ('a queries_table \<times> nat)" where
  "exec_update q t =
     (let selected = filter (\<lambda>r. row_id r = ID q) t in
      if selected \<noteq> [] \<and> (name_taken q t \<or> 1 < length selected)
      then Inl (Driver ''Error 1062: Duplicate entry'')
      else Inr (map (\<lambda>r. if row_id r = ID q then set_columns q r else r) t, length selected))"


section \<open>loadPacksForQueries\<close>

text \<open>
  The two tables the statement of \<^verbatim>\<open>loadPacksForQueries\<close> joins. Of table
  \<^verbatim>\<open>scheduled_queries\<close> the statement names \<^verbatim>\<open>pack_id\<close> and \<^verbatim>\<open>query_name\<close>; the other columns
  are those of a scheduled entry in the pack tests.
\<close>

record packs_row =
  pack_id :: nat
  pack_name :: string
  pack_description :: string
  pack_platform :: string
  pack_disabled :: bool
  pack_type :: "string option"

record scheduled_queries_row =
  sq_id :: nat
  sq_pack_id :: nat
  sq_query_id :: nat
  sq_query_name :: string
  sq_name :: string
  sq_description :: string
  sq_interval :: nat
  sq_snapshot :: "bool option"
  sq_removed :: "bool option"
  sq_platform :: "string option"
  sq_version :: "string option"
  sq_shard :: "nat option"
  sq_denylist :: "bool option"

text \<open>Scanning a row of \<^verbatim>\<open>packs\<close> into a \<^verbatim>\<open>fleet.Pack\<close>: the target slices stay \<^verbatim>\<open>nil\<close>.\<close>

definition scan_pack :: "packs_row \<Rightarrow> Pack" where
  "scan_pack p =
     \<lparr>PackID = pack_id p, PackName = pack_name p, PackDescription = pack_description p,
      PackPlatform = pack_platform p, PackDisabled = pack_disabled p, PackType = pack_type p,
      LabelIDs = [], HostIDs = [], TeamIDs = []\<rparr>"

text \<open>
  \<^verbatim>\<open>SELECT p.*, sq.query_name AS query_name FROM packs p JOIN scheduled_queries sq
  ON p.id = sq.pack_id WHERE query_name IN (?)\<close>: one result row, the query name and the
  pack, for every pair of a pack and a scheduled entry of that pack whose query name is
  among \<open>names\<close>.
\<close>

definition select_packs_join ::
  "packs_row list \<Rightarrow> scheduled_queries_row list \<Rightarrow> string list \<Rightarrow> (string \<times> Pack) list" where
  "select_packs_join ps sqs names =
     concat (map (\<lambda>p. map (\<lambda>sq. (sq_query_name sq, scan_pack p))
                          (filter (\<lambda>sq. sq_pack_id sq = pack_id p \<and> sq_query_name sq \<in> set names) sqs))
                 ps)"

text \<open>
  The queries are handed over as pointers, and the function writes through them: the heap
  maps an address to the \<^verbatim>\<open>fleet.Query\<close> stored there, and \<open>queries\<close> is a list of
  addresses, none of them nil (the same address may occur twice, two addresses may hold
  queries of the same name).

  The first loop (lines 213 to 217) gives every query an allocated, empty \<open>Packs\<close>,
  collects the names and records under each name the address seen last.
\<close>

type_synonym heap = "nat \<Rightarrow> Query"

fun init_loop ::
  "nat list \<Rightarrow> heap \<Rightarrow> string list \<Rightarrow> (string \<rightharpoonup> nat) \<Rightarrow> heap \<times> string list \<times> (string \<rightharpoonup> nat)" where
  "init_loop [] h names name_queries = (h, names, name_queries)"
| "init_loop (q # qs) h names name_queries =
     (let h1 = h(q := (h q)\<lparr>Packs := Some []\<rparr>)
      in init_loop qs h1 (names @ [Name (h1 q)]) (name_queries(Name (h1 q) \<mapsto> q)))"

text \<open>\<^verbatim>\<open>sqlx.In\<close> refuses an empty slice.\<close>

definition sqlx_In :: "string list \<Rightarrow> error + string list" where
  "sqlx_In names = (if names = [] then Inl (New ''empty slice passed to 'in' query'') else Inr names)"

text \<open>Go's \<^verbatim>\<open>append\<close> of one element to a slice that may be \<^verbatim>\<open>nil\<close>.\<close>

definition append_slice :: "'a list option \<Rightarrow> 'a \<Rightarrow> 'a list option" where
  "append_slice s x = (case s of None \<Rightarrow> Some [x] | Some xs \<Rightarrow> Some (xs @ [x]))"

text \<open>
  The second loop (lines 234 to 237): each result row goes to the query recorded under the
  row's name. A name with no record yields a nil pointer, and the field access panics
  (\<open>None\<close>).
\<close>

fun distribute :: "(string \<times> Pack) list \<Rightarrow> (string \<rightharpoonup> nat) \<Rightarrow> heap \<Rightarrow> heap option" where
  "distribute [] name_queries h = Some h"
| "distribute ((n, pk) # rows) name_queries h =
     (case name_queries n of
        None \<Rightarrow> None
      | Some q \<Rightarrow> distribute rows name_queries (h(q := (h q)\<lparr>Packs := append_slice (Packs (h q)) pk\<rparr>)))"

text \<open>
  \<^verbatim>\<open>loadPacksForQueries\<close>: the outcome, the heap afterwards, and the joins issued, each with
  the names it was issued for. After a panic the heap given is the one before the second
  loop.
\<close>

definition loadPacksForQueries ::
  "'a backend \<Rightarrow> packs_row list \<Rightarrow> scheduled_queries_row list \<Rightarrow> heap \<Rightarrow> nat list
     \<Rightarrow> outcome \<times> heap \<times> string list list" where
  "loadPacksForQueries env ps sqs h queries =
     (if length queries = 0 then (Returned None, h, [])
      else
        (case init_loop queries h [] Map.empty of
           (h1, names, name_queries) \<Rightarrow>
             (case sqlx_In names of
                Inl e \<Rightarrow> (Returned (Some (Wrap e ''building query in load packs for queries'')), h1, [])
              | Inr args \<Rightarrow>
                  (case select_fault env of
                     Some e \<Rightarrow>
                       (Returned (Some (Wrap e ''selecting load packs for queries'')), h1, [args])
                   | None \<Rightarrow>
                       (case distribute (select_packs_join ps sqs args) name_queries h1 of
                          None \<Rightarrow> (NilDereference, h1, [args])
                        | Some h2 \<Rightarrow> (Returned None, h2, [args]))))))"

text \<open>
  For stating what the loops compute: a slice after appending a list of elements one by
  one (nothing appended leaves it as it is, \<^verbatim>\<open>nil\<close> included), and the address that the
  first loop leaves recorded under a name, the last one of the list that holds a query of
  that name.
\<close>

definition append_all :: "'a list option \<Rightarrow> 'a list \<Rightarrow> 'a list option" where
  "append_all s xs = (if xs = [] then s else Some ((case s of None \<Rightarrow> [] | Some ys \<Rightarrow> ys) @ xs))"

fun last_named :: "heap \<Rightarrow> nat list \<Rightarrow> string \<Rightarrow> nat option" where
  "last_named h [] n = None"
| "last_named h (q # qs) n =
     (case last_named h qs n of Some p \<Rightarrow> Some p | None \<Rightarrow> if Name (h q) = n then Some q else None)"

section \<open>Pack specs\<close>

text \<open>
  The pack operations (\<^verbatim>\<open>ApplyPackSpecs\<close>, \<^verbatim>\<open>GetPackSpec\<close>, \<^verbatim>\<open>GetPackSpecs\<close>,
  \<^verbatim>\<open>ListPacksForHost\<close>, \<^verbatim>\<open>EnsureTeamPack\<close>) are exercised by the pack tests, but their code
  is not among the source files. The types below take their fields from the literals of
  the tests; \<open>Teams\<close> and \<open>Hosts\<close> are the spec's. \<open>SpecID\<close>, \<open>SpecName\<close> and
  \<open>SpecDisabled\<close> are the fields \<^verbatim>\<open>ID\<close>, \<^verbatim>\<open>Name\<close> and \<^verbatim>\<open>Disabled\<close> of \<^verbatim>\<open>fleet.PackSpec\<close>;
  \<open>EntryName\<close> and \<open>EntryDescription\<close> are \<^verbatim>\<open>Name\<close> and \<^verbatim>\<open>Description\<close> of
  \<^verbatim>\<open>fleet.PackSpecQuery\<close>. The pointer fields are options: \<open>None\<close> is unset, \<open>Some False\<close>
  is explicitly false.
\<close>

record PackSpecQuery =
  QueryName :: string
  EntryName :: string
  EntryDescription :: string
  Interval :: nat
  Snapshot :: "bool option"
  Removed :: "bool option"
  Denylist :: "bool option"
  Shard :: "nat option"
  Platform :: "string option"
  Version :: "string option"

record PackSpecTargets =
  Labels :: "string list"
  Teams :: "string list"
  Hosts :: "nat list"

record PackSpec =
  SpecID :: nat
  SpecName :: string
  SpecDisabled :: bool
  Targets :: PackSpecTargets
  Queries :: "PackSpecQuery list"

text \<open>
  Modelled from the spec: the relational state ("a queries table keyed by unique name; a
  packs table keyed by unique name with an optional scope tag; link tables for pack and
  label, pack and host, pack and team supporting full replace-by-pack; a scheduled-entry
  table linking packs to queries with per-entry overrides"): the queries table, the packs table, the scheduled entries, one
  link table (pack identifier, target identifier) for each kind of target, the label and
  team directories, the hosts with their team, and the label-evaluation feed, where an
  absent result (\<open>None\<close>) is unknown.
\<close>

record label_row =
  label_id :: nat
  label_name :: string

record team_row =
  team_id :: nat
  team_name :: string

record host_row =
  host_id :: nat
  host_team_id :: "nat option"

record store =
  tbl_queries :: "unit queries_table"
  tbl_packs :: "packs_row list"
  tbl_scheduled_queries :: "scheduled_queries_row list"
  tbl_pack_labels :: "(nat \<times> nat) list"
  tbl_pack_hosts :: "(nat \<times> nat) list"
  tbl_pack_teams :: "(nat \<times> nat) list"
  tbl_labels :: "label_row list"
  tbl_teams :: "team_row list"
  tbl_hosts :: "host_row list"
  label_results :: "nat \<Rightarrow> nat \<Rightarrow> bool option"

section \<open>ApplyPackSpecs\<close>

text \<open>The message of an error, as \<^verbatim>\<open>Error()\<close> renders it, and substring containment.\<close>

fun error_string :: "error \<Rightarrow> string" where
  "error_string (New s) = s"
| "error_string (Wrap e s) = s @ '': '' @ error_string e"
| "error_string (NotFoundID kind i) = kind @ '' was not found in the datastore''"
| "error_string (NotFoundName kind n) = kind @ '' '' @ n @ '' was not found in the datastore''"
| "error_string (AlreadyExists kind i) = kind @ '' already exists''"
| "error_string ErrTxDone = ''sql: transaction has already been committed or rolled back''"
| "error_string ErrNoRows = ''sql: no rows in result set''"
| "error_string (Driver s) = s"

fun contains :: "string \<Rightarrow> string \<Rightarrow> bool" where
  "contains [] sub = (sub = [])"
| "contains (c # cs) sub = (take (length sub) (c # cs) = sub \<or> contains cs sub)"

definition quoted :: "string \<Rightarrow> string" where
  "quoted s = [CHR 0x27] @ s @ [CHR 0x27]"

definition unknown_label :: "string \<Rightarrow> error" where
  "unknown_label n = New (''unknown label '' @ quoted n)"

definition unknown_team :: "string \<Rightarrow> error" where
  "unknown_team n = New (''unknown team '' @ quoted n)"

definition unknown_query :: "string \<Rightarrow> error" where
  "unknown_query n = New (''unknown query '' @ quoted n)"

text \<open>
  Modelled from the spec: the resolution of the references of a spec, each against its
  directory, the first unresolved one ending the whole with its error ("for each spec,
  resolve label names to identifiers and team references to identifiers, failing the
  entire batch with a descriptive unknown label/team error if any is unresolved; resolve
  each scheduled-entry's query name against saved queries, failing the entire batch with
  unknown query '<name>' if absent; default an entry's display name to its query name when
  blank").
\<close>

fun resolve_all :: "('a \<Rightarrow> error + 'b) \<Rightarrow> 'a list \<Rightarrow> error + 'b list" where
  "resolve_all f [] = Inr []"
| "resolve_all f (x # xs) =
     (case f x of
        Inl e \<Rightarrow> Inl e
      | Inr y \<Rightarrow> (case resolve_all f xs of Inl e \<Rightarrow> Inl e | Inr ys \<Rightarrow> Inr (y # ys)))"

definition resolve_label :: "store \<Rightarrow> string \<Rightarrow> error + nat" where
  "resolve_label st n =
     (case find (\<lambda>l. label_name l = n) (tbl_labels st) of
        None \<Rightarrow> Inl (unknown_label n)
      | Some l \<Rightarrow> Inr (label_id l))"

definition resolve_team :: "store \<Rightarrow> string \<Rightarrow> error + nat" where
  "resolve_team st n =
     (case find (\<lambda>t. team_name t = n) (tbl_teams st) of
        None \<Rightarrow> Inl (unknown_team n)
      | Some t \<Rightarrow> Inr (team_id t))"

definition default_name :: "PackSpecQuery \<Rightarrow> PackSpecQuery" where
  "default_name e = (if EntryName e = [] then e\<lparr>EntryName := QueryName e\<rparr> else e)"

definition resolve_entry :: "store \<Rightarrow> PackSpecQuery \<Rightarrow> error + (nat \<times> PackSpecQuery)" where
  "resolve_entry st e =
     (case find (\<lambda>r. row_name r = QueryName e \<and> row_saved r) (tbl_queries st) of
        None \<Rightarrow> Inl (unknown_query (QueryName e))
      | Some r \<Rightarrow> Inr (row_id r, default_name e))"

text \<open>
  Modelled from the spec: the writes of one spec ("upsert the Pack row by name, then fully
  replace its target sets and scheduled-entry list"). A pack of that name keeps its row
  and its identifier; otherwise a row is added under a new identifier.
\<close>

definition fresh_pack_id :: "packs_row list \<Rightarrow> nat" where
  "fresh_pack_id ps = Suc (fold max (map pack_id ps) 0)"

definition upsert_pack :: "PackSpec \<Rightarrow> packs_row list \<Rightarrow> nat \<times> packs_row list" where
  "upsert_pack spec ps =
     (case find (\<lambda>p. pack_name p = SpecName spec) ps of
        Some p \<Rightarrow>
          (pack_id p,
           map (\<lambda>r. if pack_name r = SpecName spec then r\<lparr>pack_disabled := SpecDisabled spec\<rparr> else r) ps)
      | None \<Rightarrow>
          (fresh_pack_id ps,
           ps @ [\<lparr>pack_id = fresh_pack_id ps, pack_name = SpecName spec, pack_description = [],
                  pack_platform = [], pack_disabled = SpecDisabled spec, pack_type = None\<rparr>]))"

definition replace_targets :: "nat \<Rightarrow> nat list \<Rightarrow> (nat \<times> nat) list \<Rightarrow> (nat \<times> nat) list" where
  "replace_targets pid ids links = filter (\<lambda>(p, t). p \<noteq> pid) links @ map (\<lambda>t. (pid, t)) ids"

definition entry_row :: "nat \<Rightarrow> nat \<Rightarrow> nat \<times> PackSpecQuery \<Rightarrow> scheduled_queries_row" where
  "entry_row pid i qe =
     \<lparr>sq_id = i, sq_pack_id = pid, sq_query_id = fst qe, sq_query_name = QueryName (snd qe),
      sq_name = EntryName (snd qe), sq_description = EntryDescription (snd qe),
      sq_interval = Interval (snd qe), sq_snapshot = Snapshot (snd qe),
      sq_removed = Removed (snd qe), sq_platform = Platform (snd qe),
      sq_version = Version (snd qe), sq_shard = Shard (snd qe), sq_denylist = Denylist (snd qe)\<rparr>"

definition replace_entries ::
  "nat \<Rightarrow> (nat \<times> PackSpecQuery) list \<Rightarrow> scheduled_queries_row list \<Rightarrow> scheduled_queries_row list" where
  "replace_entries pid es sqs =
     (let kept = filter (\<lambda>r. sq_pack_id r \<noteq> pid) sqs;
          first = Suc (fold max (map sq_id sqs) 0)
      in kept @ map (\<lambda>(i, qe). entry_row pid i qe) (zip [first..<first + length es] es))"

definition applyPackSpec :: "store \<Rightarrow> PackSpec \<Rightarrow> error + store" where
  "applyPackSpec st spec =
     (case resolve_all (resolve_label st) (Labels (Targets spec)) of
        Inl e \<Rightarrow> Inl e
      | Inr label_ids \<Rightarrow>
     (case resolve_all (resolve_team st) (Teams (Targets spec)) of
        Inl e \<Rightarrow> Inl e
      | Inr team_ids \<Rightarrow>
     (case resolve_all (resolve_entry st) (Queries spec) of
        Inl e \<Rightarrow> Inl e
      | Inr entries \<Rightarrow>
          (case upsert_pack spec (tbl_packs st) of
             (pid, ps) \<Rightarrow>
               Inr (st\<lparr>tbl_packs := ps,
                       tbl_pack_labels := replace_targets pid label_ids (tbl_pack_labels st),
                       tbl_pack_teams := replace_targets pid team_ids (tbl_pack_teams st),
                       tbl_pack_hosts := replace_targets pid (Hosts (Targets spec)) (tbl_pack_hosts st),
                       tbl_scheduled_queries := replace_entries pid entries (tbl_scheduled_queries st)\<rparr>)))))"

text \<open>
  Modelled from the spec: the batch ("the whole batch commits or none of it does: a failure
  on spec k rolls back specs 1..k-1 as well"; "callers see the first classifying error
  encountered"). The specs are applied in order on the transaction's view; the store
  returned is the view after the last spec, or the one the call started from.
\<close>

fun apply_specs :: "store \<Rightarrow> PackSpec list \<Rightarrow> error + store" where
  "apply_specs st [] = Inr st"
| "apply_specs st (spec # specs) =
     (case applyPackSpec st spec of Inl e \<Rightarrow> Inl e | Inr st1 \<Rightarrow> apply_specs st1 specs)"

definition ApplyPackSpecs :: "store \<Rightarrow> PackSpec list \<Rightarrow> error option \<times> store" where
  "ApplyPackSpecs st specs =
     (case apply_specs st specs of Inl e \<Rightarrow> (Some e, st) | Inr st1 \<Rightarrow> (None, st1))"

section \<open>GetPackSpec and GetPackSpecs\<close>

text \<open>
  Modelled from the spec: the inverse projection ("the canonical serialization of a Pack
  plus its targets and entries; GetPackSpec/GetPackSpecs must reconstruct it exactly from
  relational state"). Targets are read through the link tables joined with the
  directories, entries from the rows of the pack, in table order.
\<close>

definition entry_of_row :: "scheduled_queries_row \<Rightarrow> PackSpecQuery" where
  "entry_of_row r =
     \<lparr>QueryName = sq_query_name r, EntryName = sq_name r, EntryDescription = sq_description r,
      Interval = sq_interval r, Snapshot = sq_snapshot r, Removed = sq_removed r,
      Denylist = sq_denylist r, Shard = sq_shard r, Platform = sq_platform r,
      Version = sq_version r\<rparr>"

definition targets_of :: "nat \<Rightarrow> (nat \<times> nat) list \<Rightarrow> nat list" where
  "targets_of pid links = map snd (filter (\<lambda>(p, t). p = pid) links)"

definition label_names :: "store \<Rightarrow> nat list \<Rightarrow> string list" where
  "label_names st ids = concat (map (\<lambda>i. map label_name (filter (\<lambda>l. label_id l = i) (tbl_labels st))) ids)"

definition team_names :: "store \<Rightarrow> nat list \<Rightarrow> string list" where
  "team_names st ids = concat (map (\<lambda>i. map team_name (filter (\<lambda>t. team_id t = i) (tbl_teams st))) ids)"

definition spec_of_pack :: "store \<Rightarrow> packs_row \<Rightarrow> PackSpec" where
  "spec_of_pack st p =
     \<lparr>SpecID = pack_id p, SpecName = pack_name p, SpecDisabled = pack_disabled p,
      Targets = \<lparr>Labels = label_names st (targets_of (pack_id p) (tbl_pack_labels st)),
                 Teams = team_names st (targets_of (pack_id p) (tbl_pack_teams st)),
                 Hosts = targets_of (pack_id p) (tbl_pack_hosts st)\<rparr>,
      Queries = map entry_of_row (filter (\<lambda>r. sq_pack_id r = pack_id p) (tbl_scheduled_queries st))\<rparr>"

definition GetPackSpec :: "store \<Rightarrow> string \<Rightarrow> error + PackSpec" where
  "GetPackSpec st n =
     (case find (\<lambda>p. pack_name p = n) (tbl_packs st) of
        None \<Rightarrow> Inl (NotFoundName ''Pack'' n)
      | Some p \<Rightarrow> Inr (spec_of_pack st p))"

definition GetPackSpecs :: "store \<Rightarrow> PackSpec list" where
  "GetPackSpecs st = map (spec_of_pack st) (tbl_packs st)"

text \<open>
  The keys of the tables: pack identifiers and pack names are unique, and so are the
  identifiers of the label and team directories.
\<close>

definition store_ok :: "store \<Rightarrow> bool" where
  "store_ok st =
     (distinct (map pack_id (tbl_packs st)) \<and> distinct (map pack_name (tbl_packs st)) \<and>
      distinct (map label_id (tbl_labels st)) \<and> distinct (map team_id (tbl_teams st)))"

text \<open>What a spec reads back as: its blank display names replaced by the query names.\<close>

definition defaulted :: "PackSpec \<Rightarrow> PackSpec" where
  "defaulted spec = spec\<lparr>Queries := map default_name (Queries spec)\<rparr>"

text \<open>Every reference of a spec resolves: its labels, its teams, its saved queries.\<close>

definition resolves :: "store \<Rightarrow> PackSpec \<Rightarrow> bool" where
  "resolves st spec =
     ((\<forall>n\<in>set (Labels (Targets spec)). list_ex (\<lambda>l. label_name l = n) (tbl_labels st)) \<and>
      (\<forall>n\<in>set (Teams (Targets spec)). list_ex (\<lambda>t. team_name t = n) (tbl_teams st)) \<and>
      (\<forall>e\<in>set (Queries spec). list_ex (\<lambda>r. row_name r = QueryName e \<and> row_saved r) (tbl_queries st)))"

text \<open>
  The parts of \<open>resolves\<close>: a name that has a saved query, a spec whose labels and teams
  resolve; and the query names a batch refers to, in the order in which they are resolved.
\<close>

definition saved_query :: "store \<Rightarrow> string \<Rightarrow> bool" where
  "saved_query st n = list_ex (\<lambda>r. row_name r = n \<and> row_saved r) (tbl_queries st)"

definition targets_resolve :: "store \<Rightarrow> PackSpec \<Rightarrow> bool" where
  "targets_resolve st spec =
     (list_all (\<lambda>n. list_ex (\<lambda>l. label_name l = n) (tbl_labels st)) (Labels (Targets spec)) \<and>
      list_all (\<lambda>n. list_ex (\<lambda>t. team_name t = n) (tbl_teams st)) (Teams (Targets spec)))"

definition query_names :: "PackSpec list \<Rightarrow> string list" where
  "query_names specs = concat (map (\<lambda>spec. map QueryName (Queries spec)) specs)"

section \<open>ListPacksForHost\<close>

text \<open>
  Modelled from the spec: the packs of a host ("returns every non-disabled pack where at
  least one targeting criterion is currently satisfied: any targeted label evaluates true
  for the host, or the host is directly targeted, or the host's team is targeted ...
  unknown is never treated as satisfied. Disabled packs are always excluded"). The code of
  \<^verbatim>\<open>ListPacksForHost\<close> is not among the source files. The packs come in table order, each
  row of the packs table at most once.
\<close>

definition host_team :: "store \<Rightarrow> nat \<Rightarrow> nat option" where
  "host_team st hid =
     (case find (\<lambda>h. host_id h = hid) (tbl_hosts st) of None \<Rightarrow> None | Some h \<Rightarrow> host_team_id h)"

definition label_criterion :: "store \<Rightarrow> nat \<Rightarrow> packs_row \<Rightarrow> bool" where
  "label_criterion st hid p =
     list_ex (\<lambda>(pid, lid). pid = pack_id p \<and> label_results st hid lid = Some True) (tbl_pack_labels st)"

definition host_criterion :: "store \<Rightarrow> nat \<Rightarrow> packs_row \<Rightarrow> bool" where
  "host_criterion st hid p = list_ex (\<lambda>(pid, h). pid = pack_id p \<and> h = hid) (tbl_pack_hosts st)"

definition team_criterion :: "store \<Rightarrow> nat \<Rightarrow> packs_row \<Rightarrow> bool" where
  "team_criterion st hid p =
     list_ex (\<lambda>(pid, t). pid = pack_id p \<and> host_team st hid = Some t) (tbl_pack_teams st)"

definition ListPacksForHost :: "store \<Rightarrow> nat \<Rightarrow> Pack list" where
  "ListPacksForHost st hid =
     map scan_pack
       (filter (\<lambda>p. \<not> pack_disabled p \<and>
                    (label_criterion st hid p \<or> host_criterion st hid p \<or> team_criterion st hid p))
          (tbl_packs st))"

text \<open>
  Modelled from the spec: the evaluation feed records one result for a host and a label
  ("a per-host, per-label boolean produced by the external evaluation feed"), as
  \<^verbatim>\<open>RecordLabelQueryExecutions\<close> does in the tests for each entry of its map.
\<close>

definition record_label_result :: "store \<Rightarrow> nat \<Rightarrow> nat \<Rightarrow> bool \<Rightarrow> store" where
  "record_label_result st hid lid b =
     st\<lparr>label_results := (label_results st)(hid := (label_results st hid)(lid \<mapsto> b))\<rparr>"

section \<open>Team packs\<close>







section \<open>Concrete data for the worked examples\<close>

text \<open>
  A backend on which every call goes through, at time 100; the queries \<open>foo\<close> and \<open>bar\<close>
  as \<^verbatim>\<open>setupPackSpecsTest\<close> writes them, a query without a name, rows of the queries table
  and updates of query 1, a heap with two queries, and a pack with one scheduled entry.
\<close>

definition ok_backend :: "unit backend" where
  "ok_backend = \<lparr>begin_fault = None, prepare_fault = None, exec_fault = (\<lambda>i. None),
     commit_fault = None, rollback_fault = None, rows_affected_fault = None,
     select_fault = None, clock = 100, row_default = ()\<rparr>"

definition query_foo :: Query where
  "query_foo = \<lparr>ID = 0, Name = ''foo'', Description = ''get the foos'',
     Query = ''select * from foo'', AuthorID = None, Saved = False, ObserverCanRun = False,
     Packs = None\<rparr>"

definition query_blank :: Query where
  "query_blank = \<lparr>ID = 0, Name = [], Description = ''nameless'',
     Query = ''select 1'', AuthorID = None, Saved = False, ObserverCanRun = False,
     Packs = None\<rparr>"

definition row_foo :: queries_row where
  "row_foo = \<lparr>row_id = 1, row_created_at = 50, row_name = ''foo'',
     row_description = ''old'', row_query = ''select 1'', row_author_id = Some 3,
     row_saved = False, row_observer_can_run = True\<rparr>"




definition query_bar :: Query where
  "query_bar = \<lparr>ID = 0, Name = ''bar'', Description = ''do some bars'',
     Query = ''select baz from bar'', AuthorID = None, Saved = False, ObserverCanRun = False,
     Packs = None\<rparr>"

definition heap_foo_bar :: heap where
  "heap_foo_bar = (\<lambda>a. if a = 10 then query_foo else query_bar)"

definition packs_row_test :: packs_row where
  "packs_row_test = \<lparr>pack_id = 1, pack_name = ''test_pack'', pack_description = [],
     pack_platform = [], pack_disabled = False, pack_type = None\<rparr>"

definition sq_row_q0 :: scheduled_queries_row where
  "sq_row_q0 = \<lparr>sq_id = 1, sq_pack_id = 1, sq_query_id = 1, sq_query_name = ''foo'',
     sq_name = ''q0'', sq_description = ''test_foo'', sq_interval = 42, sq_snapshot = None,
     sq_removed = None, sq_platform = None, sq_version = None, sq_shard = None,
     sq_denylist = None\<rparr>"

text \<open>
  The state that \<^verbatim>\<open>setupPackSpecsTest\<close> prepares before it applies its pack specs: the two
  queries applied by user 1, the three labels, nothing else; and the specs it applies. A
  field that the Go literal leaves out has its zero value.
\<close>

definition store_setup :: store where
  "store_setup =
     \<lparr>tbl_queries = table (ApplyQueries ok_backend [] 1 [query_foo, query_bar]),
      tbl_packs = [], tbl_scheduled_queries = [], tbl_pack_labels = [], tbl_pack_hosts = [],
      tbl_pack_teams = [],
      tbl_labels = [\<lparr>label_id = 1, label_name = ''foo''\<rparr>, \<lparr>label_id = 2, label_name = ''bar''\<rparr>,
                    \<lparr>label_id = 3, label_name = ''bing''\<rparr>],
      tbl_teams = [], tbl_hosts = [], label_results = (\<lambda>h l. None)\<rparr>"

definition entry :: "string \<Rightarrow> string \<Rightarrow> string \<Rightarrow> nat \<Rightarrow> PackSpecQuery" where
  "entry qn n d i =
     \<lparr>QueryName = qn, EntryName = n, EntryDescription = d, Interval = i, Snapshot = None,
      Removed = None, Denylist = None, Shard = None, Platform = None, Version = None\<rparr>"

definition expectedSpecs :: "PackSpec list" where
  "expectedSpecs =
     [\<lparr>SpecID = 1, SpecName = ''test_pack'', SpecDisabled = False,
       Targets = \<lparr>Labels = [''foo'', ''bar'', ''bing''], Teams = [], Hosts = []\<rparr>,
       Queries =
         [entry ''foo'' ''q0'' ''test_foo'' 42,
          (entry ''foo'' ''foo_snapshot'' [] 600)\<lparr>Snapshot := Some True, Denylist := Some False\<rparr>,
          (entry ''bar'' ''q2'' [] 600)\<lparr>Removed := Some False, Shard := Some 73,
             Platform := Some ''foobar'', Version := Some ''0.0.0.0.0.1'', Denylist := Some True\<rparr>]\<rparr>,
      \<lparr>SpecID = 2, SpecName = ''test_pack_disabled'', SpecDisabled = True,
       Targets = \<lparr>Labels = [''foo'', ''bar'', ''bing''], Teams = [], Hosts = []\<rparr>,
       Queries =
         [entry ''foo'' ''q0'' ''test_foo'' 42,
          (entry ''foo'' ''foo_snapshot'' [] 600)\<lparr>Snapshot := Some True\<rparr>,
          (entry ''bar'' ''q2'' [] 600)\<lparr>Removed := Some False, Shard := Some 73,
             Platform := Some ''foobar'', Version := Some ''0.0.0.0.0.1''\<rparr>]\<rparr>]"

text \<open>The spec of \<^verbatim>\<open>TestApplyPackSpecMissingName\<close>, its entry without a display name, under
  the identifier the store gives it when applied to \<open>store_setup\<close>.\<close>

definition spec_test2 :: PackSpec where
  "spec_test2 =
     \<lparr>SpecID = 1, SpecName = ''test2'', SpecDisabled = False,
      Targets = \<lparr>Labels = [], Teams = [], Hosts = []\<rparr>,
      Queries = [entry ''foo'' [] [] 600]\<rparr>"

text \<open>
  The store of \<^verbatim>\<open>TestApplyPackSpecMissingQueries\<close>, where nothing has been defined; the spec
  of that test, which schedules the unknown query \<open>bar\<close>; and a spec that targets an
  unknown label.
\<close>

definition store_empty :: store where
  "store_empty =
     \<lparr>tbl_queries = [], tbl_packs = [], tbl_scheduled_queries = [], tbl_pack_labels = [],
      tbl_pack_hosts = [], tbl_pack_teams = [], tbl_labels = [], tbl_teams = [], tbl_hosts = [],
      label_results = (\<lambda>h l. None)\<rparr>"

definition spec_missing_query :: PackSpec where
  "spec_missing_query =
     \<lparr>SpecID = 1, SpecName = ''test_pack'', SpecDisabled = False,
      Targets = \<lparr>Labels = [], Teams = [], Hosts = []\<rparr>,
      Queries = [entry ''bar'' [] [] 600]\<rparr>"

definition spec_missing_label :: PackSpec where
  "spec_missing_label =
     \<lparr>SpecID = 2, SpecName = ''other_pack'', SpecDisabled = False,
      Targets = \<lparr>Labels = [''UnexistentLabel''], Teams = [], Hosts = []\<rparr>,
      Queries = []\<rparr>"

text \<open>
  The state of \<^verbatim>\<open>TestListPacksForHost\<close>: the labels \<open>foo\<close> (1) and \<open>bar\<close> (2), the pack
  \<open>foo_pack\<close> targeting both and the pack \<open>shmoo_pack\<close> targeting \<open>bar\<close>, applied as specs,
  and host 1 without a team.
\<close>

definition store_two_labels :: store where
  "store_two_labels =
     store_empty\<lparr>tbl_labels := [\<lparr>label_id = 1, label_name = ''foo''\<rparr>, \<lparr>label_id = 2, label_name = ''bar''\<rparr>],
                 tbl_hosts := [\<lparr>host_id = 1, host_team_id = None\<rparr>]\<rparr>"

definition spec_foo_pack :: PackSpec where
  "spec_foo_pack =
     \<lparr>SpecID = 1, SpecName = ''foo_pack'', SpecDisabled = False,
      Targets = \<lparr>Labels = [''foo'', ''bar''], Teams = [], Hosts = []\<rparr>, Queries = []\<rparr>"

definition spec_shmoo_pack :: PackSpec where
  "spec_shmoo_pack =
     \<lparr>SpecID = 2, SpecName = ''shmoo_pack'', SpecDisabled = False,
      Targets = \<lparr>Labels = [''bar''], Teams = [], Hosts = []\<rparr>, Queries = []\<rparr>"

definition store_two_packs :: store where
  "store_two_packs = snd (ApplyPackSpecs store_two_labels [spec_foo_pack, spec_shmoo_pack])"


section \<open>Facts about the upsert statement and the loop\<close>

lemma exec_upsert_length: "length t \<le> length (exec_upsert now dflt v t)"
  by (simp add: exec_upsert_def)

lemma exec_upsert_nth:
  assumes "i < length t"
  shows "row_id (exec_upsert now dflt v t ! i) = row_id (t ! i)"
    and "row_created_at (exec_upsert now dflt v t ! i) = row_created_at (t ! i)"
    and "queries_row.more (exec_upsert now dflt v t ! i) = queries_row.more (t ! i)"
    and "row_name (exec_upsert now dflt v t ! i) = row_name (t ! i)"
    and "row_name (t ! i) \<noteq> row_name v \<Longrightarrow> exec_upsert now dflt v t ! i = t ! i"
  using assms by (simp_all add: exec_upsert_def on_duplicate_key_update_def nth_append)

lemma exec_upsert_existing_length:
  "row_name v \<in> row_name ` set t \<Longrightarrow> length (exec_upsert now dflt v t) = length t"
  by (auto simp add: exec_upsert_def list_ex_iff)

lemma exec_upsert_saved:
  "r \<in> set (exec_upsert now dflt v t) \<Longrightarrow> row_saved v \<Longrightarrow> r \<in> set t \<or> row_saved r"
  by (auto simp add: exec_upsert_def insert_row_def on_duplicate_key_update_def split: if_splits)

lemma exec_upsert_member:
  assumes "r \<in> set t"
  shows "(if row_name r = row_name v then on_duplicate_key_update v r else r)
           \<in> set (exec_upsert now dflt v t)"
proof -
  have "list_ex (\<lambda>r. row_name r = row_name v) t \<Longrightarrow> ?thesis"
    using assms by (simp add: exec_upsert_def del: set_map) (simp add: image_iff, blast)
  moreover have "\<not> list_ex (\<lambda>r. row_name r = row_name v) t \<Longrightarrow> ?thesis"
    using assms by (auto simp add: exec_upsert_def list_ex_iff)
  ultimately show ?thesis by blast
qed

lemma exec_upsert_has_saved:
  assumes "row_saved v"
  shows "\<exists>r\<in>set (exec_upsert now dflt v t). row_name r = row_name v \<and> row_saved r"
proof (cases "list_ex (\<lambda>r. row_name r = row_name v) t")
  case True
  then obtain r where r: "r \<in> set t" "row_name r = row_name v" by (auto simp: list_ex_iff)
  from exec_upsert_member[OF r(1), of v now dflt] r(2)
  have "on_duplicate_key_update v r \<in> set (exec_upsert now dflt v t)" by simp
  moreover have "row_name (on_duplicate_key_update v r) = row_name v"
    "row_saved (on_duplicate_key_update v r)"
    using assms by (simp_all add: on_duplicate_key_update_def)
  ultimately show ?thesis by blast
next
  case False
  then have "insert_row now dflt v t \<in> set (exec_upsert now dflt v t)"
    by (simp add: exec_upsert_def)
  moreover have "row_name (insert_row now dflt v t) = row_name v"
    "row_saved (insert_row now dflt v t)"
    using assms by (simp_all add: insert_row_def)
  ultimately show ?thesis by blast
qed

lemma exec_upsert_keeps_saved:
  assumes "\<exists>r\<in>set t. row_name r = n \<and> row_saved r" and "row_saved v"
  shows "\<exists>r\<in>set (exec_upsert now dflt v t). row_name r = n \<and> row_saved r"
proof -
  from assms obtain r where r: "r \<in> set t" "row_name r = n" "row_saved r" by blast
  let ?r' = "if row_name r = row_name v then on_duplicate_key_update v r else r"
  have "?r' \<in> set (exec_upsert now dflt v t)" by (rule exec_upsert_member[OF r(1)])
  moreover have "row_name ?r' = n" "row_saved ?r'"
    using r assms(2) by (simp_all add: on_duplicate_key_update_def)
  ultimately show ?thesis by blast
qed

lemma apply_loop_empty_name:
  "\<exists>q\<in>set qs. Name q = [] \<Longrightarrow> \<exists>e cs'. apply_loop env a qs i t cs = Inl (e, cs')"
proof (induction qs arbitrary: i t cs)
  case Nil then show ?case by simp
next
  case (Cons q qs)
  show ?case
  proof (cases "Name q = []")
    case True then show ?thesis by simp
  next
    case False
    with Cons.prems have "\<exists>q\<in>set qs. Name q = []" by auto
    from Cons.IH[OF this] show ?thesis using False by (simp split: option.splits)
  qed
qed

lemma apply_loop_Inr:
  "apply_loop env a qs i t cs = Inr (t', cs') \<Longrightarrow>
     (\<forall>q\<in>set qs. Name q \<noteq> []) \<and> (\<forall>j<length qs. exec_fault env (i + j) = None)"
proof (induction qs arbitrary: i t cs)
  case Nil then show ?case by simp
next
  case (Cons q qs)
  from Cons.prems have n: "Name q \<noteq> []" and f: "exec_fault env i = None"
    by (auto split: if_splits option.splits)
  with Cons.prems obtain t1 cs1 where "apply_loop env a qs (Suc i) t1 cs1 = Inr (t', cs')"
    by auto
  from Cons.IH[OF this] have ih: "(\<forall>q\<in>set qs. Name q \<noteq> [])" "(\<forall>j<length qs. exec_fault env (Suc i + j) = None)"
    by auto
  show ?case using n f ih by (auto simp: less_Suc_eq_0_disj)
qed

lemma apply_loop_calls:
  "set (case apply_loop env a qs i t cs of Inl (e, cs') \<Rightarrow> cs' | Inr (t', cs') \<Rightarrow> cs')
     \<subseteq> set cs \<union> range ExecContext"
proof (induction qs arbitrary: i t cs)
  case Nil then show ?case by simp
next
  case (Cons q qs)
  show ?case
  proof (cases "Name q = [] \<or> exec_fault env i \<noteq> None")
    case True then show ?thesis by auto
  next
    case False
    then have "apply_loop env a (q # qs) i t cs =
       apply_loop env a qs (Suc i) (exec_upsert (clock env) (row_default env)
                     (insert_values (Name q) (Description q) (Query q) a (ObserverCanRun q)) t)
                  (cs @ [ExecContext (Name q)])" by simp
    moreover have "set (cs @ [ExecContext (Name q)]) \<union> range ExecContext \<subseteq> set cs \<union> range ExecContext"
      by auto
    ultimately show ?thesis using Cons.IH[of "Suc i" _ "cs @ [ExecContext (Name q)]"] by (metis (no_types, lifting) order_trans sup_commute)
  qed
qed

lemma apply_loop_frame:
  "apply_loop env a qs i t cs = Inr (t', cs') \<Longrightarrow>
     length t \<le> length t' \<and>
     (\<forall>k<length t. row_id (t' ! k) = row_id (t ! k) \<and>
        row_created_at (t' ! k) = row_created_at (t ! k) \<and>
        queries_row.more (t' ! k) = queries_row.more (t ! k) \<and>
        row_name (t' ! k) = row_name (t ! k) \<and>
        (row_name (t ! k) \<notin> Name ` set qs \<longrightarrow> t' ! k = t ! k))"
proof (induction qs arbitrary: i t cs)
  case Nil then show ?case by simp
next
  case (Cons q qs)
  let ?v = "insert_values (Name q) (Description q) (Query q) a (ObserverCanRun q)"
  let ?t1 = "exec_upsert (clock env) (row_default env) ?v t"
  from Cons.prems have rec: "apply_loop env a qs (Suc i) ?t1 (cs @ [ExecContext (Name q)]) = Inr (t', cs')"
    by (auto split: if_splits option.splits)
  note ih = Cons.IH[OF rec]
  have l1: "length t \<le> length ?t1" by (rule exec_upsert_length)
  have nv: "row_name ?v = Name q" by (simp add: insert_values_def)
  show ?case
  proof (intro conjI allI impI)
    show "length t \<le> length t'" using ih l1 by linarith
  next
    fix k assume k: "k < length t"
    then have k1: "k < length ?t1" using l1 by linarith
    show "row_id (t' ! k) = row_id (t ! k)"
      using ih k1 exec_upsert_nth(1)[OF k] by simp
    show "row_created_at (t' ! k) = row_created_at (t ! k)"
      using ih k1 exec_upsert_nth(2)[OF k] by simp
    show "queries_row.more (t' ! k) = queries_row.more (t ! k)"
      using ih k1 exec_upsert_nth(3)[OF k] by simp
    show "row_name (t' ! k) = row_name (t ! k)"
      using ih k1 exec_upsert_nth(4)[OF k] by simp
    assume nin: "row_name (t ! k) \<notin> Name ` set (q # qs)"
    then have "row_name (t ! k) \<noteq> row_name ?v" using nv by auto
    from exec_upsert_nth(5)[OF k this] have e: "?t1 ! k = t ! k" .
    with nin have "row_name (?t1 ! k) \<notin> Name ` set qs" by auto
    with ih k1 have "t' ! k = ?t1 ! k" by blast
    with e show "t' ! k = t ! k" by simp
  qed
qed

lemma exec_upsert_names:
  "row_name ` set (exec_upsert now dflt v t) = insert (row_name v) (row_name ` set t)"
proof (cases "list_ex (\<lambda>r. row_name r = row_name v) t")
  case True
  have "map row_name (exec_upsert now dflt v t) = map row_name t"
    using True by (simp add: exec_upsert_def on_duplicate_key_update_def)
  then have "set (map row_name (exec_upsert now dflt v t)) = set (map row_name t)" by simp
  moreover have "row_name v \<in> row_name ` set t" using True by (auto simp: list_ex_iff image_iff intro: sym)
  ultimately show ?thesis by auto
next
  case False
  then show ?thesis by (auto simp add: exec_upsert_def insert_row_def)
qed

lemma apply_loop_existing_length:
  "apply_loop env a qs i t cs = Inr (t', cs') \<Longrightarrow> Name ` set qs \<subseteq> row_name ` set t \<Longrightarrow>
     length t' = length t"
proof (induction qs arbitrary: i t cs)
  case Nil then show ?case by simp
next
  case (Cons q qs)
  let ?v = "insert_values (Name q) (Description q) (Query q) a (ObserverCanRun q)"
  let ?t1 = "exec_upsert (clock env) (row_default env) ?v t"
  from Cons.prems have rec: "apply_loop env a qs (Suc i) ?t1 (cs @ [ExecContext (Name q)]) = Inr (t', cs')"
    by (auto split: if_splits option.splits)
  have nv: "row_name ?v = Name q" by (simp add: insert_values_def)
  have "row_name ?v \<in> row_name ` set t" using Cons.prems(2) nv by auto
  then have l: "length ?t1 = length t" by (rule exec_upsert_existing_length)
  have "Name ` set qs \<subseteq> row_name ` set ?t1"
    using Cons.prems(2) by (auto simp: exec_upsert_names)
  from Cons.IH[OF rec this] l show ?case by simp
qed

lemma apply_loop_saved:
  "apply_loop env a qs i t cs = Inr (t', cs') \<Longrightarrow>
     (\<forall>r\<in>set t'. r \<in> set t \<or> row_saved r) \<and>
     (\<forall>n. (n \<in> Name ` set qs \<or> (\<exists>r\<in>set t. row_name r = n \<and> row_saved r)) \<longrightarrow>
          (\<exists>r\<in>set t'. row_name r = n \<and> row_saved r))"
proof (induction qs arbitrary: i t cs)
  case Nil then show ?case by auto
next
  case (Cons q qs)
  let ?v = "insert_values (Name q) (Description q) (Query q) a (ObserverCanRun q)"
  let ?t1 = "exec_upsert (clock env) (row_default env) ?v t"
  from Cons.prems have rec: "apply_loop env a qs (Suc i) ?t1 (cs @ [ExecContext (Name q)]) = Inr (t', cs')"
    by (auto split: if_splits option.splits)
  note ih = Cons.IH[OF rec]
  have nv: "row_name ?v = Name q" and sv: "row_saved ?v" by (simp_all add: insert_values_def)
  show ?case
  proof (intro conjI ballI allI impI)
    fix r assume "r \<in> set t'"
    with ih have "r \<in> set ?t1 \<or> row_saved r" by blast
    then show "r \<in> set t \<or> row_saved r"
      using exec_upsert_saved[of r "clock env" "row_default env" ?v t] sv by blast
  next
    fix n assume n: "n \<in> Name ` set (q # qs) \<or> (\<exists>r\<in>set t. row_name r = n \<and> row_saved r)"
    have "n \<in> Name ` set qs \<or> (\<exists>r\<in>set ?t1. row_name r = n \<and> row_saved r)"
    proof -
      { assume "n = Name q"
        then have "\<exists>r\<in>set ?t1. row_name r = n \<and> row_saved r"
          using exec_upsert_has_saved[OF sv, of "clock env" "row_default env" t] nv by simp }
      moreover
      { assume "\<exists>r\<in>set t. row_name r = n \<and> row_saved r"
        then have "\<exists>r\<in>set ?t1. row_name r = n \<and> row_saved r"
          by (rule exec_upsert_keeps_saved[OF _ sv]) }
      ultimately show ?thesis using n by auto
    qed
    with ih show "\<exists>r\<in>set t'. row_name r = n \<and> row_saved r" by blast
  qed
qed

section \<open>ApplyQueries is all or nothing\<close>

lemma ApplyQueries_failure_table:
  "outcome (ApplyQueries env db a qs) \<noteq> Returned None \<Longrightarrow> table (ApplyQueries env db a qs) = db"
  by (auto simp add: ApplyQueries_def rollback_exit_def split: option.splits sum.splits prod.splits)

lemma ApplyQueries_failure_rollback:
  "outcome (ApplyQueries env db a qs) \<noteq> Returned None \<Longrightarrow> begin_fault env = None \<Longrightarrow>
     Rollback \<in> set (calls (ApplyQueries env db a qs))"
  by (auto simp add: ApplyQueries_def rollback_exit_def split: option.splits sum.splits prod.splits)

lemma ApplyQueries_empty_name_fails:
  assumes "\<exists>q\<in>set qs. Name q = []"
  shows "outcome (ApplyQueries env db a qs) \<noteq> Returned None"
    and "rollback_fault env = None \<or> rollback_fault env = Some ErrTxDone \<Longrightarrow>
           \<exists>e. outcome (ApplyQueries env db a qs) = Returned (Some e)"
    and "Commit \<notin> set (calls (ApplyQueries env db a qs))"
proof -
  from apply_loop_empty_name[OF assms, of env a 0 db "[BeginTxx, PrepareContext]"]
  obtain e cs' where l: "apply_loop env a qs 0 db [BeginTxx, PrepareContext] = Inl (e, cs')"
    by blast
  have "set cs' \<subseteq> set [BeginTxx, PrepareContext] \<union> range ExecContext"
    using apply_loop_calls[of env a qs 0 db "[BeginTxx, PrepareContext]"] l by simp
  then have c: "Commit \<notin> set cs'" by auto
  show "outcome (ApplyQueries env db a qs) \<noteq> Returned None"
    using l by (auto simp add: ApplyQueries_def rollback_exit_def split: option.splits)
  show "rollback_fault env = None \<or> rollback_fault env = Some ErrTxDone \<Longrightarrow>
           \<exists>e. outcome (ApplyQueries env db a qs) = Returned (Some e)"
    using l by (auto simp add: ApplyQueries_def rollback_exit_def split: option.splits)
  show "Commit \<notin> set (calls (ApplyQueries env db a qs))"
    using l c by (auto simp add: ApplyQueries_def rollback_exit_def split: option.splits)
qed

lemma ApplyQueries_commit_only:
  assumes "Commit \<in> set (calls (ApplyQueries env db a qs))"
  shows "(\<forall>q\<in>set qs. Name q \<noteq> []) \<and> (\<forall>i<length qs. exec_fault env i = None)"
proof (cases "apply_loop env a qs 0 db [BeginTxx, PrepareContext]")
  case (Inl p)
  obtain e cs' where p: "p = (e, cs')" by (cases p)
  have "set cs' \<subseteq> set [BeginTxx, PrepareContext] \<union> range ExecContext"
    using apply_loop_calls[of env a qs 0 db "[BeginTxx, PrepareContext]"] Inl p by simp
  then have "Commit \<notin> set cs'" by auto
  then have "Commit \<notin> set (calls (ApplyQueries env db a qs))"
    using Inl p by (auto simp add: ApplyQueries_def rollback_exit_def split: option.splits)
  with assms show ?thesis by simp
next
  case (Inr p)
  obtain t' cs' where p: "p = (t', cs')" by (cases p)
  from apply_loop_Inr[of env a qs 0 db _ t' cs'] Inr p show ?thesis by simp
qed

lemma ApplyQueries_success_calls:
  assumes "outcome (ApplyQueries env db a qs) = Returned None"
  shows "Commit \<in> set (calls (ApplyQueries env db a qs))"
    and "Rollback \<notin> set (calls (ApplyQueries env db a qs))"
proof -
  from assms obtain t' cs' where l: "apply_loop env a qs 0 db [BeginTxx, PrepareContext] = Inr (t', cs')"
    and r: "ApplyQueries env db a qs = \<lparr>outcome = Returned None, table = t', calls = cs' @ [Commit, StmtClose]\<rparr>"
    by (auto simp add: ApplyQueries_def rollback_exit_def split: option.splits sum.splits prod.splits if_splits)
  have "set cs' \<subseteq> set [BeginTxx, PrepareContext] \<union> range ExecContext"
    using apply_loop_calls[of env a qs 0 db "[BeginTxx, PrepareContext]"] l by simp
  then have "Rollback \<notin> set cs'" by auto
  then show "Rollback \<notin> set (calls (ApplyQueries env db a qs))" using r by simp
  show "Commit \<in> set (calls (ApplyQueries env db a qs))" using r by simp
qed

text \<open>
  Claim C2. Whenever some entry of the batch has an empty name, \<^verbatim>\<open>ApplyQueries\<close> does not
  succeed, the table is the one it started from (entries before the offending one
  included) and \<^verbatim>\<open>Commit\<close> is never called; unless the rollback itself reports a foreign
  error (then the deferred function panics), the call returns an error value. On every
  exit other than success the table is unchanged and, once the transaction has begun,
  \<^verbatim>\<open>Rollback\<close> has been called. \<^verbatim>\<open>Commit\<close> is called only when every entry has a name and
  every insert went through, and a successful call has committed and not rolled back.
\<close>

theorem ApplyQueries_all_or_nothing:
  "(let r = ApplyQueries env db authorID queries in
     ((\<exists>q\<in>set queries. Name q = []) \<longrightarrow>
        outcome r \<noteq> Returned None \<and> table r = db \<and> Commit \<notin> set (calls r) \<and>
        (rollback_fault env = None \<or> rollback_fault env = Some ErrTxDone \<longrightarrow>
           (\<exists>e. outcome r = Returned (Some e)))) \<and>
     (outcome r \<noteq> Returned None \<longrightarrow>
        table r = db \<and> (begin_fault env = None \<longrightarrow> Rollback \<in> set (calls r))) \<and>
     (Commit \<in> set (calls r) \<longrightarrow>
        (\<forall>q\<in>set queries. Name q \<noteq> []) \<and> (\<forall>i<length queries. exec_fault env i = None)) \<and>
     (outcome r = Returned None \<longrightarrow> Commit \<in> set (calls r) \<and> Rollback \<notin> set (calls r)))"
  unfolding Let_def
  using ApplyQueries_failure_table[of env db authorID queries]
    ApplyQueries_failure_rollback[of env db authorID queries]
    ApplyQueries_empty_name_fails[of queries env db authorID]
    ApplyQueries_commit_only[of env db authorID queries]
    ApplyQueries_success_calls[of env db authorID queries]
  by blast

theorem ApplyQueries_all_or_nothing_witness:
  "(\<exists>q\<in>set [query_foo, query_blank]. Name q = []) \<and>
   ApplyQueries ok_backend [] 7 [query_foo, query_blank] =
     \<lparr>outcome = Returned (Some (New ''query name must not be empty'')), table = [],
      calls = [BeginTxx, PrepareContext, ExecContext ''foo'', StmtClose, Rollback]\<rparr> \<and>
   outcome (ApplyQueries ok_backend [] 7 [query_foo]) = Returned None \<and>
   calls (ApplyQueries ok_backend [] 7 [query_foo]) =
      [BeginTxx, PrepareContext, ExecContext ''foo'', Commit, StmtClose]"
  using ApplyQueries_all_or_nothing[where env=ok_backend and db="[]" and authorID=7
      and queries="[query_foo, query_blank]"]
  by (simp add: ApplyQueries_def rollback_exit_def ok_backend_def query_foo_def query_blank_def
      exec_upsert_def insert_values_def insert_row_def fresh_id_def)

section \<open>What the conflict update leaves alone\<close>

lemma ApplyQueries_table_cases:
  "table (ApplyQueries env db a qs) = db \<or>
   (\<exists>t' cs'. apply_loop env a qs 0 db [BeginTxx, PrepareContext] = Inr (t', cs') \<and>
       table (ApplyQueries env db a qs) = t')"
  by (auto simp add: ApplyQueries_def rollback_exit_def split: option.splits sum.splits prod.splits)

text \<open>
  Claim C5. Whatever \<^verbatim>\<open>ApplyQueries\<close> does, every row that was in the table keeps its
  place, its identifier, its creation time and every column the statement does not list;
  a row whose name is not in the batch is not touched at all; and when every name of the
  batch is already in the table, no row is added: re-application only rewrites the six
  listed columns of the rows it names.
\<close>

theorem ApplyQueries_conflict_update_frame:
  "(let t' = table (ApplyQueries env db authorID queries) in
     length db \<le> length t' \<and>
     (\<forall>k<length db.
        row_id (t' ! k) = row_id (db ! k) \<and>
        row_created_at (t' ! k) = row_created_at (db ! k) \<and>
        queries_row.more (t' ! k) = queries_row.more (db ! k) \<and>
        (row_name (db ! k) \<notin> Name ` set queries \<longrightarrow> t' ! k = db ! k)) \<and>
     (Name ` set queries \<subseteq> row_name ` set db \<longrightarrow> length t' = length db))"
proof -
  from ApplyQueries_table_cases[of env db authorID queries]
  show ?thesis
  proof
    assume "table (ApplyQueries env db authorID queries) = db"
    then show ?thesis by (simp add: Let_def)
  next
    assume "\<exists>t' cs'. apply_loop env authorID queries 0 db [BeginTxx, PrepareContext] = Inr (t', cs') \<and>
       table (ApplyQueries env db authorID queries) = t'"
    then obtain t' cs' where l: "apply_loop env authorID queries 0 db [BeginTxx, PrepareContext] = Inr (t', cs')"
      and t: "table (ApplyQueries env db authorID queries) = t'" by blast
    from apply_loop_frame[OF l] apply_loop_existing_length[OF l] t
    show ?thesis by (simp add: Let_def)
  qed
qed

theorem ApplyQueries_conflict_update_frame_witness:
  "table (ApplyQueries ok_backend [row_foo] 7 [query_foo]) =
     [\<lparr>row_id = 1, row_created_at = 50, row_name = ''foo'', row_description = ''get the foos'',
       row_query = ''select * from foo'', row_author_id = Some 7, row_saved = True,
       row_observer_can_run = False\<rparr>] \<and>
   (0::nat) < length [row_foo] \<and>
   Name ` set [query_foo] \<subseteq> row_name ` set [row_foo] \<and>
   row_id row_foo = 1 \<and> row_created_at row_foo = 50"
  using ApplyQueries_conflict_update_frame[where env=ok_backend and db="[row_foo]" and authorID=7 and queries="[query_foo]"]
  by (simp add: ApplyQueries_def rollback_exit_def ok_backend_def query_foo_def row_foo_def
      exec_upsert_def insert_values_def on_duplicate_key_update_def)

section \<open>The saved flag\<close>

text \<open>
  Claim C10. After \<^verbatim>\<open>ApplyQueries\<close>, every row of the table is either a row that was
  there before, untouched, or has \<^verbatim>\<open>saved\<close> true; and after a successful call every entry
  of the batch has a row under its name with \<^verbatim>\<open>saved\<close> true, whatever the entry's own
  \<open>Saved\<close> field says.
\<close>

theorem ApplyQueries_saved_always_true:
  "(let r = ApplyQueries env db authorID queries in
     (\<forall>row\<in>set (table r). row \<in> set db \<or> row_saved row) \<and>
     (outcome r = Returned None \<longrightarrow>
        (\<forall>q\<in>set queries. \<exists>row\<in>set (table r). row_name row = Name q \<and> row_saved row)))"
proof -
  from ApplyQueries_table_cases[of env db authorID queries]
  show ?thesis
  proof
    assume t: "table (ApplyQueries env db authorID queries) = db"
    have "outcome (ApplyQueries env db authorID queries) = Returned None \<Longrightarrow>
       \<exists>t' cs'. apply_loop env authorID queries 0 db [BeginTxx, PrepareContext] = Inr (t', cs') \<and>
       table (ApplyQueries env db authorID queries) = t'"
      by (auto simp add: ApplyQueries_def rollback_exit_def split: option.splits sum.splits prod.splits if_splits)
    then have "outcome (ApplyQueries env db authorID queries) = Returned None \<Longrightarrow>
       (\<forall>q\<in>set queries. \<exists>row\<in>set db. row_name row = Name q \<and> row_saved row)"
      using t apply_loop_saved[of env authorID queries 0 db "[BeginTxx, PrepareContext]"]
      by (metis imageI)
    with t show ?thesis by (simp add: Let_def)
  next
    assume "\<exists>t' cs'. apply_loop env authorID queries 0 db [BeginTxx, PrepareContext] = Inr (t', cs') \<and>
       table (ApplyQueries env db authorID queries) = t'"
    then obtain t' cs' where l: "apply_loop env authorID queries 0 db [BeginTxx, PrepareContext] = Inr (t', cs')"
      and t: "table (ApplyQueries env db authorID queries) = t'" by blast
    from apply_loop_saved[OF l] t
    show ?thesis by (simp add: Let_def)
  qed
qed

theorem ApplyQueries_saved_always_true_witness:
  "Saved query_foo = False \<and> row_saved row_foo = False \<and>
   outcome (ApplyQueries ok_backend [row_foo] 7 [query_foo]) = Returned None \<and>
   map row_saved (table (ApplyQueries ok_backend [row_foo] 7 [query_foo])) = [True] \<and>
   map row_saved (table (ApplyQueries ok_backend [] 7 [query_foo])) = [True]"
  using ApplyQueries_saved_always_true[where env=ok_backend and db="[row_foo]" and authorID=7 and queries="[query_foo]"]
  by (simp add: ApplyQueries_def rollback_exit_def ok_backend_def query_foo_def row_foo_def
      exec_upsert_def insert_values_def on_duplicate_key_update_def insert_row_def fresh_id_def)

section \<open>SaveQuery and missing identifiers\<close>


lemma exec_update_present:
  assumes "list_ex (\<lambda>r. row_id r = ID q) t"
  shows "\<exists>n. 0 < n \<and> exec_update q t =
     (if name_taken q t \<or> 1 < n then Inl (Driver ''Error 1062: Duplicate entry'')
      else Inr (map (\<lambda>r. if row_id r = ID q then set_columns q r else r) t, n))"
proof -
  from assms have "filter (\<lambda>r. row_id r = ID q) t \<noteq> []"
    by (auto simp: list_ex_iff filter_empty_conv)
  then show ?thesis
    by (intro exI[of _ "length (filter (\<lambda>r. row_id r = ID q) t)"]) (simp add: exec_update_def Let_def)
qed




section \<open>The loops of loadPacksForQueries\<close>

lemma last_named_cong: "(\<And>a. Name (h1 a) = Name (h a)) \<Longrightarrow> last_named h1 qs n = last_named h qs n"
  by (induction qs) simp_all

lemma append_all_Cons: "append_all (append_slice s x) xs = append_all s (x # xs)"
  by (simp add: append_all_def append_slice_def split: option.splits)

lemma init_loop_char:
  "init_loop qs h names nq =
     ((\<lambda>a. if a \<in> set qs then (h a)\<lparr>Packs := Some []\<rparr> else h a),
      names @ map (\<lambda>q. Name (h q)) qs,
      (\<lambda>n. case last_named h qs n of Some q \<Rightarrow> Some q | None \<Rightarrow> nq n))"
proof (induction qs arbitrary: h names nq)
  case Nil
  then show ?case by simp
next
  case (Cons q qs)
  let ?h1 = "h(q := (h q)\<lparr>Packs := Some []\<rparr>)"
  have n1: "\<And>a. Name (?h1 a) = Name (h a)" by simp
  have ln: "\<And>n. last_named ?h1 qs n = last_named h qs n"
    by (rule last_named_cong) simp
  have h: "(\<lambda>a. if a \<in> set qs then (?h1 a)\<lparr>Packs := Some []\<rparr> else ?h1 a) =
        (\<lambda>a. if a \<in> set (q # qs) then (h a)\<lparr>Packs := Some []\<rparr> else h a)"
    by (rule ext) simp
  have m: "(\<lambda>n. case last_named ?h1 qs n of Some q \<Rightarrow> Some q | None \<Rightarrow> (nq(Name (?h1 q) \<mapsto> q)) n) =
        (\<lambda>n. case last_named h (q # qs) n of Some q \<Rightarrow> Some q | None \<Rightarrow> nq n)"
    by (rule ext) (simp add: ln split: option.splits)
  have "init_loop (q # qs) h names nq = init_loop qs ?h1 (names @ [Name (?h1 q)]) (nq(Name (?h1 q) \<mapsto> q))"
    by (simp add: Let_def)
  also have "\<dots> = ((\<lambda>a. if a \<in> set qs then (?h1 a)\<lparr>Packs := Some []\<rparr> else ?h1 a),
      (names @ [Name (?h1 q)]) @ map (\<lambda>q. Name (?h1 q)) qs,
      (\<lambda>n. case last_named ?h1 qs n of Some q \<Rightarrow> Some q | None \<Rightarrow> (nq(Name (?h1 q) \<mapsto> q)) n))"
    by (rule Cons.IH)
  also have "\<dots> = ((\<lambda>a. if a \<in> set (q # qs) then (h a)\<lparr>Packs := Some []\<rparr> else h a),
      names @ map (\<lambda>q. Name (h q)) (q # qs),
      (\<lambda>n. case last_named h (q # qs) n of Some q \<Rightarrow> Some q | None \<Rightarrow> nq n))"
    by (subst h, subst m) simp
  finally show ?case .
qed

lemma distribute_char:
  "\<forall>(n, pk)\<in>set rows. nq n \<noteq> None \<Longrightarrow>
   distribute rows nq h =
     Some (\<lambda>a. (h a)\<lparr>Packs := append_all (Packs (h a)) (map snd (filter (\<lambda>(n, pk). nq n = Some a) rows))\<rparr>)"
proof (induction rows arbitrary: h)
  case Nil
  then show ?case by (simp add: append_all_def)
next
  case (Cons r rows)
  obtain n pk where r: "r = (n, pk)" by (cases r)
  from Cons.prems r obtain q where q: "nq n = Some q" by auto
  from Cons.prems have p: "\<forall>(n, pk)\<in>set rows. nq n \<noteq> None" by simp
  let ?h1 = "h(q := (h q)\<lparr>Packs := append_slice (Packs (h q)) pk\<rparr>)"
  have "distribute (r # rows) nq h = distribute rows nq ?h1" using r q by simp
  also have "\<dots> = Some (\<lambda>a. (?h1 a)\<lparr>Packs := append_all (Packs (?h1 a)) (map snd (filter (\<lambda>(n, pk). nq n = Some a) rows))\<rparr>)"
    by (rule Cons.IH[OF p])
  also have "(\<lambda>a. (?h1 a)\<lparr>Packs := append_all (Packs (?h1 a)) (map snd (filter (\<lambda>(n, pk). nq n = Some a) rows))\<rparr>) =
     (\<lambda>a. (h a)\<lparr>Packs := append_all (Packs (h a)) (map snd (filter (\<lambda>(n, pk). nq n = Some a) (r # rows)))\<rparr>)"
    by (rule ext) (simp add: r q append_all_Cons)
  finally show ?case .
qed

lemma last_named_Some:
  "last_named h qs n = Some q \<Longrightarrow> q \<in> set qs \<and> Name (h q) = n"
  by (induction qs) (auto split: option.splits if_splits)

lemma last_named_None:
  "last_named h qs n = None \<Longrightarrow> n \<notin> (\<lambda>q. Name (h q)) ` set qs"
  by (induction qs) (auto split: option.splits if_splits)

lemma last_named_distinct:
  "distinct (map (\<lambda>q. Name (h q)) qs) \<Longrightarrow> q \<in> set qs \<Longrightarrow> last_named h qs (Name (h q)) = Some q"
proof (induction qs)
  case Nil then show ?case by simp
next
  case (Cons p qs)
  show ?case
  proof (cases "q \<in> set qs")
    case True
    with Cons have "last_named h qs (Name (h q)) = Some q" by simp
    then show ?thesis by simp
  next
    case False
    with Cons.prems have qp: "q = p" by simp
    from Cons.prems have "Name (h p) \<notin> (\<lambda>q. Name (h q)) ` set qs" by simp
    then have "last_named h qs (Name (h p)) = None"
      using last_named_Some[of h qs "Name (h p)"]
      by (cases "last_named h qs (Name (h p))") (simp, metis imageI)
    with qp show ?thesis by simp
  qed
qed

lemma select_packs_join_names:
  "(n, pk) \<in> set (select_packs_join ps sqs names) \<Longrightarrow> n \<in> set names"
  by (auto simp add: select_packs_join_def)

lemma loadPacksForQueries_run:
  fixes h :: heap and queries :: "nat list"
    and ps :: "packs_row list" and sqs :: "scheduled_queries_row list"
  defines "names \<equiv> map (\<lambda>q. Name (h q)) queries"
  defines "rows \<equiv> select_packs_join ps sqs names"
  assumes ne: "queries \<noteq> []" and ok: "select_fault env = None"
  shows "loadPacksForQueries env ps sqs h queries =
    (Returned None,
     (\<lambda>a. if a \<in> set queries
          then (h a)\<lparr>Packs := Some (map snd (filter (\<lambda>(n, pk). last_named h queries n = Some a) rows))\<rparr>
          else h a),
     [names])"
proof -
  let ?h1 = "\<lambda>a. if a \<in> set queries then (h a)\<lparr>Packs := Some []\<rparr> else h a"
  let ?nq = "\<lambda>n. case last_named h queries n of Some q \<Rightarrow> Some q | None \<Rightarrow> Map.empty n"
  have nq: "?nq = last_named h queries" by (rule ext) (simp split: option.splits)
  have il: "init_loop queries h [] Map.empty = (?h1, names, last_named h queries)"
    using init_loop_char[of queries h "[]" Map.empty] nq by (simp add: names_def)
  have nn: "names \<noteq> []" using ne by (simp add: names_def)
  have all: "\<forall>(n, pk)\<in>set rows. last_named h queries n \<noteq> None"
  proof -
    { fix n pk assume r: "(n, pk) \<in> set rows"
      from r have m: "n \<in> set names" unfolding rows_def by (rule select_packs_join_names)
      have "last_named h queries n \<noteq> None"
      proof
        assume l: "last_named h queries n = None"
        with last_named_None[OF l] m show False by (simp add: names_def)
      qed }
    then show ?thesis by auto
  qed
  have d: "distribute rows (last_named h queries) ?h1 =
     Some (\<lambda>a. (?h1 a)\<lparr>Packs := append_all (Packs (?h1 a))
              (map snd (filter (\<lambda>(n, pk). last_named h queries n = Some a) rows))\<rparr>)"
    by (rule distribute_char[OF all])
  have e: "(\<lambda>a. (?h1 a)\<lparr>Packs := append_all (Packs (?h1 a))
              (map snd (filter (\<lambda>(n, pk). last_named h queries n = Some a) rows))\<rparr>) =
      (\<lambda>a. if a \<in> set queries
          then (h a)\<lparr>Packs := Some (map snd (filter (\<lambda>(n, pk). last_named h queries n = Some a) rows))\<rparr>
          else h a)"
  proof (rule ext)
    fix a
    show "(?h1 a)\<lparr>Packs := append_all (Packs (?h1 a))
              (map snd (filter (\<lambda>(n, pk). last_named h queries n = Some a) rows))\<rparr> =
      (if a \<in> set queries
          then (h a)\<lparr>Packs := Some (map snd (filter (\<lambda>(n, pk). last_named h queries n = Some a) rows))\<rparr>
          else h a)"
    proof (cases "a \<in> set queries")
      case True
      then show ?thesis by (simp add: append_all_def)
    next
      case False
      then have "filter (\<lambda>(n, pk). last_named h queries n = Some a) rows = []"
        using last_named_Some[of h queries _ a] by (auto simp: filter_empty_conv)
      with False show ?thesis by (simp add: append_all_def)
    qed
  qed
  show ?thesis
    using ne nn il ok d e
    by (simp add: loadPacksForQueries_def sqlx_In_def rows_def)
qed

lemma loadPacksForQueries_select_fault:
  assumes ne: "queries \<noteq> []" and f: "select_fault env = Some e"
  shows "loadPacksForQueries env ps sqs h queries =
    (Returned (Some (Wrap e ''selecting load packs for queries'')),
     (\<lambda>a. if a \<in> set queries then (h a)\<lparr>Packs := Some []\<rparr> else h a),
     [map (\<lambda>q. Name (h q)) queries])"
  using ne f init_loop_char[of queries h "[]" Map.empty]
  by (simp add: loadPacksForQueries_def sqlx_In_def)

lemma filter_weaker_empty:
  "filter Q xs = [] \<Longrightarrow> (\<And>x. x \<in> set xs \<Longrightarrow> P x \<Longrightarrow> Q x) \<Longrightarrow> filter P xs = []"
  by (auto simp: filter_empty_conv)

text \<open>
  Claim C9. On an empty list \<^verbatim>\<open>loadPacksForQueries\<close> returns at once: no error, the heap
  untouched, no join issued. On a non-empty list, when the select goes through, it returns
  no error and has issued one join, for exactly the names of the queries handed over;
  nothing but those queries is written; every one of them ends with an allocated \<open>Packs\<close>
  holding the packs of the result rows recorded for it, in the order of the rows: an empty
  slice when no row carries its name, and, when the names are pairwise different, exactly
  the packs of the rows that carry its name. When the select fails, the error is returned
  and every query is left with an allocated, empty \<open>Packs\<close>.
\<close>

theorem loadPacksForQueries_distributes:
  "loadPacksForQueries env ps sqs h [] = (Returned None, h, []) \<and>
   (queries \<noteq> [] \<and> select_fault env = None \<longrightarrow>
     (let names = map (\<lambda>q. Name (h q)) queries;
          rows = select_packs_join ps sqs names;
          r = loadPacksForQueries env ps sqs h queries;
          h' = fst (snd r)
      in fst r = Returned None \<and> snd (snd r) = [names] \<and>
         (\<forall>a. a \<notin> set queries \<longrightarrow> h' a = h a) \<and>
         (\<forall>q\<in>set queries.
            h' q = (h q)\<lparr>Packs := Some (map snd (filter (\<lambda>(n, pk). last_named h queries n = Some q) rows))\<rparr> \<and>
            (filter (\<lambda>(n, pk). n = Name (h q)) rows = [] \<longrightarrow> Packs (h' q) = Some []) \<and>
            (distinct names \<longrightarrow>
               Packs (h' q) = Some (map snd (filter (\<lambda>(n, pk). n = Name (h q)) rows)))))) \<and>
   (queries \<noteq> [] \<and> select_fault env = Some e \<longrightarrow>
     (let r = loadPacksForQueries env ps sqs h queries in
        fst r = Returned (Some (Wrap e ''selecting load packs for queries'')) \<and>
        (\<forall>q\<in>set queries. Packs (fst (snd r) q) = Some [])))"
proof (intro conjI impI)
  show "loadPacksForQueries env ps sqs h [] = (Returned None, h, [])"
    by (simp add: loadPacksForQueries_def)
next
  assume a: "queries \<noteq> [] \<and> select_fault env = Some e"
  then show "let r = loadPacksForQueries env ps sqs h queries in
        fst r = Returned (Some (Wrap e ''selecting load packs for queries'')) \<and>
        (\<forall>q\<in>set queries. Packs (fst (snd r) q) = Some [])"
    using loadPacksForQueries_select_fault[where queries=queries and env=env and e=e and ps=ps and sqs=sqs and h=h] by (simp add: Let_def)
next
  assume a: "queries \<noteq> [] \<and> select_fault env = None"
  define names where "names = map (\<lambda>q. Name (h q)) queries"
  define rows where "rows = select_packs_join ps sqs names"
  have run: "loadPacksForQueries env ps sqs h queries =
    (Returned None,
     (\<lambda>a. if a \<in> set queries
          then (h a)\<lparr>Packs := Some (map snd (filter (\<lambda>(n, pk). last_named h queries n = Some a) rows))\<rparr>
          else h a),
     [names])"
    unfolding rows_def names_def by (rule loadPacksForQueries_run) (use a in simp_all)
  have e1: "\<And>q. q \<in> set queries \<Longrightarrow> filter (\<lambda>(n, pk). n = Name (h q)) rows = [] \<Longrightarrow>
      filter (\<lambda>(n, pk). last_named h queries n = Some q) rows = []"
  proof -
    fix q assume "q \<in> set queries" and f: "filter (\<lambda>(n, pk). n = Name (h q)) rows = []"
    show "filter (\<lambda>(n, pk). last_named h queries n = Some q) rows = []"
      by (rule filter_weaker_empty[OF f]) (auto dest: last_named_Some)
  qed
  have e2: "\<And>q. q \<in> set queries \<Longrightarrow> distinct names \<Longrightarrow>
      filter (\<lambda>(n, pk). last_named h queries n = Some q) rows = filter (\<lambda>(n, pk). n = Name (h q)) rows"
  proof -
    fix q assume q: "q \<in> set queries" and d: "distinct names"
    have ld: "last_named h queries (Name (h q)) = Some q"
      using d q unfolding names_def by (rule last_named_distinct)
    have "\<And>n. (last_named h queries n = Some q) = (n = Name (h q))"
    proof -
      fix n
      show "(last_named h queries n = Some q) = (n = Name (h q))"
      proof
        assume "last_named h queries n = Some q"
        from last_named_Some[OF this] show "n = Name (h q)" by simp
      next
        assume "n = Name (h q)"
        with ld show "last_named h queries n = Some q" by simp
      qed
    qed
    then show "filter (\<lambda>(n, pk). last_named h queries n = Some q) rows = filter (\<lambda>(n, pk). n = Name (h q)) rows"
      by simp
  qed
  show "let names = map (\<lambda>q. Name (h q)) queries;
          rows = select_packs_join ps sqs names;
          r = loadPacksForQueries env ps sqs h queries;
          h' = fst (snd r)
      in fst r = Returned None \<and> snd (snd r) = [names] \<and>
         (\<forall>a. a \<notin> set queries \<longrightarrow> h' a = h a) \<and>
         (\<forall>q\<in>set queries.
            h' q = (h q)\<lparr>Packs := Some (map snd (filter (\<lambda>(n, pk). last_named h queries n = Some q) rows))\<rparr> \<and>
            (filter (\<lambda>(n, pk). n = Name (h q)) rows = [] \<longrightarrow> Packs (h' q) = Some []) \<and>
            (distinct names \<longrightarrow>
               Packs (h' q) = Some (map snd (filter (\<lambda>(n, pk). n = Name (h q)) rows))))"
    unfolding Let_def names_def[symmetric] rows_def[symmetric] run fst_conv snd_conv
  proof (intro conjI allI ballI impI)
    show "Returned None = Returned None" by (rule refl)
    show "[names] = [names]" by (rule refl)
  next
    fix a assume "a \<notin> set queries"
    then show "(if a \<in> set queries
          then (h a)\<lparr>Packs := Some (map snd (filter (\<lambda>(n, pk). last_named h queries n = Some a) rows))\<rparr>
          else h a) = h a" by simp
  next
    fix q assume q: "q \<in> set queries"
    then show "(if q \<in> set queries
          then (h q)\<lparr>Packs := Some (map snd (filter (\<lambda>(n, pk). last_named h queries n = Some q) rows))\<rparr>
          else h q) =
         (h q)\<lparr>Packs := Some (map snd (filter (\<lambda>(n, pk). last_named h queries n = Some q) rows))\<rparr>"
      by simp
  next
    fix q assume q: "q \<in> set queries" and f: "filter (\<lambda>(n, pk). n = Name (h q)) rows = []"
    show "Packs (if q \<in> set queries
          then (h q)\<lparr>Packs := Some (map snd (filter (\<lambda>(n, pk). last_named h queries n = Some q) rows))\<rparr>
          else h q) = Some []"
      using q e1[OF q f] by simp
  next
    fix q assume q: "q \<in> set queries" and d: "distinct names"
    show "Packs (if q \<in> set queries
          then (h q)\<lparr>Packs := Some (map snd (filter (\<lambda>(n, pk). last_named h queries n = Some q) rows))\<rparr>
          else h q) = Some (map snd (filter (\<lambda>(n, pk). n = Name (h q)) rows))"
      using q e2[OF q d] by simp
  qed
qed

theorem loadPacksForQueries_distributes_witness:
  "[10, 11] \<noteq> [] \<and> select_fault ok_backend = None \<and>
   distinct (map (\<lambda>q. Name (heap_foo_bar q)) [10, 11]) \<and>
   Packs (heap_foo_bar 10) = None \<and> Packs (heap_foo_bar 11) = None \<and>
   fst (loadPacksForQueries ok_backend [packs_row_test] [sq_row_q0] heap_foo_bar [10, 11]) = Returned None \<and>
   snd (snd (loadPacksForQueries ok_backend [packs_row_test] [sq_row_q0] heap_foo_bar [10, 11]))
      = [[''foo'', ''bar'']] \<and>
   Packs (fst (snd (loadPacksForQueries ok_backend [packs_row_test] [sq_row_q0] heap_foo_bar [10, 11])) 10)
      = Some [scan_pack packs_row_test] \<and>
   Packs (fst (snd (loadPacksForQueries ok_backend [packs_row_test] [sq_row_q0] heap_foo_bar [10, 11])) 11)
      = Some []"
  using loadPacksForQueries_distributes[where env=ok_backend and ps="[packs_row_test]"
      and sqs="[sq_row_q0]" and h=heap_foo_bar and queries="[10, 11]"]
  by (simp add: Let_def select_packs_join_def heap_foo_bar_def query_foo_def query_bar_def
      packs_row_test_def sq_row_q0_def ok_backend_def)

section \<open>Facts about applying and reading pack specs\<close>

lemma fold_max_ge: "a \<le> fold max xs (a::nat)"
  by (induction xs arbitrary: a) (auto intro: order_trans[OF max.cobounded2])

lemma fold_max_mem: "x \<in> set xs \<Longrightarrow> x \<le> fold max xs (a::nat)"
proof (induction xs arbitrary: a)
  case Nil then show ?case by simp
next
  case (Cons y ys)
  show ?case
  proof (cases "x = y")
    case True
    have "max y a \<le> fold max ys (max y a)" by (rule fold_max_ge)
    with True show ?thesis by simp
  next
    case False
    with Cons show ?thesis by simp
  qed
qed

lemma fresh_pack_id_new: "p \<in> set ps \<Longrightarrow> pack_id p < fresh_pack_id ps"
  using fold_max_mem[of "pack_id p" "map pack_id ps" 0] by (simp add: fresh_pack_id_def less_Suc_eq_le)

lemma filter_key_single:
  "distinct (map f xs) \<Longrightarrow> x \<in> set xs \<Longrightarrow> filter (\<lambda>y. f y = f x) xs = [x]"
proof (induction xs)
  case Nil then show ?case by simp
next
  case (Cons y ys)
  show ?case
  proof (cases "x = y")
    case True
    from Cons.prems have "f y \<notin> f ` set ys" by simp
    then have "\<forall>z\<in>set ys. f z \<noteq> f y" by (metis imageI)
    then have "filter (\<lambda>z. f z = f y) ys = []" by (simp add: filter_empty_conv)
    with True show ?thesis by simp
  next
    case False
    with Cons.prems have x: "x \<in> set ys" and d: "distinct (map f ys)" by simp_all
    from Cons.prems x have "f y \<noteq> f x" by (metis distinct.simps(2) imageI list.simps(9) list.set_map)
    with Cons.IH[OF d x] show ?thesis by simp
  qed
qed

lemma find_SomeD: "find P xs = Some x \<Longrightarrow> x \<in> set xs \<and> P x"
  by (induction xs) (auto split: if_splits)

lemma find_key:
  "distinct (map f xs) \<Longrightarrow> x \<in> set xs \<Longrightarrow> find (\<lambda>y. f y = f x) xs = Some x"
proof (induction xs)
  case Nil then show ?case by simp
next
  case (Cons y ys)
  show ?case
  proof (cases "f y = f x")
    case True
    have "x = y"
    proof (rule ccontr)
      assume "x \<noteq> y"
      with Cons.prems have "x \<in> set ys" by simp
      then have "f x \<in> f ` set ys" by (rule imageI)
      with Cons.prems True show False by simp
    qed
    with True show ?thesis by simp
  next
    case False
    with Cons show ?thesis by auto
  qed
qed

lemma resolve_all_Inr:
  "resolve_all f xs = Inr ys \<Longrightarrow> list_all2 (\<lambda>x y. f x = Inr y) xs ys"
proof (induction xs arbitrary: ys)
  case Nil then show ?case by simp
next
  case (Cons x xs)
  from Cons.prems obtain y ys' where y: "f x = Inr y" and r: "resolve_all f xs = Inr ys'" and e: "ys = y # ys'"
    by (auto split: sum.splits)
  from Cons.IH[OF r] y e show ?case by simp
qed

lemma resolve_all_total:
  "(\<forall>x\<in>set xs. \<exists>y. f x = Inr y) \<Longrightarrow> \<exists>ys. resolve_all f xs = Inr ys"
proof (induction xs)
  case Nil then show ?case by simp
next
  case (Cons x xs)
  then obtain y ys where "f x = Inr y" "resolve_all f xs = Inr ys" by auto
  then show ?case by simp
qed

lemma resolve_all_Inl:
  "resolve_all f xs = Inl e \<Longrightarrow> \<exists>x\<in>set xs. f x = Inl e"
  by (induction xs) (auto split: sum.splits)

lemma resolve_all_fails:
  "x \<in> set xs \<Longrightarrow> f x = Inl e \<Longrightarrow> \<exists>e'. resolve_all f xs = Inl e'"
  by (induction xs) (auto split: sum.splits)

lemma label_names_resolved:
  assumes d: "distinct (map label_id (tbl_labels st))"
    and r: "list_all2 (\<lambda>n i. resolve_label st n = Inr i) ns ids"
    and l: "tbl_labels st' = tbl_labels st"
  shows "label_names st' ids = ns"
  using r
proof (induction ns ids rule: list_all2_induct)
  case Nil then show ?case by (simp add: label_names_def)
next
  case (Cons n ns i ids)
  from Cons.hyps(1) obtain lb where f: "find (\<lambda>l. label_name l = n) (tbl_labels st) = Some lb"
    and i: "i = label_id lb" by (auto simp: resolve_label_def split: option.splits)
  from find_SomeD[OF f] have m: "lb \<in> set (tbl_labels st)" and n: "label_name lb = n" by simp_all
  have "filter (\<lambda>l. label_id l = i) (tbl_labels st) = [lb]"
    unfolding i by (rule filter_key_single[OF d m])
  with Cons.IH n l show ?case by (simp add: label_names_def)
qed

lemma team_names_resolved:
  assumes d: "distinct (map team_id (tbl_teams st))"
    and r: "list_all2 (\<lambda>n i. resolve_team st n = Inr i) ns ids"
    and l: "tbl_teams st' = tbl_teams st"
  shows "team_names st' ids = ns"
  using r
proof (induction ns ids rule: list_all2_induct)
  case Nil then show ?case by (simp add: team_names_def)
next
  case (Cons n ns i ids)
  from Cons.hyps(1) obtain tm where f: "find (\<lambda>t. team_name t = n) (tbl_teams st) = Some tm"
    and i: "i = team_id tm" by (auto simp: resolve_team_def split: option.splits)
  from find_SomeD[OF f] have m: "tm \<in> set (tbl_teams st)" and n: "team_name tm = n" by simp_all
  have "filter (\<lambda>t. team_id t = i) (tbl_teams st) = [tm]"
    unfolding i by (rule filter_key_single[OF d m])
  with Cons.IH n l show ?case by (simp add: team_names_def)
qed

lemma entries_resolved:
  "list_all2 (\<lambda>e qe. resolve_entry st e = Inr qe) es qes \<Longrightarrow> map snd qes = map default_name es"
proof (induction es qes rule: list_all2_induct)
  case Nil then show ?case by simp
next
  case (Cons e es qe qes)
  from Cons.hyps(1) have "snd qe = default_name e"
    by (auto simp: resolve_entry_def split: option.splits)
  with Cons.IH show ?case by simp
qed

lemma targets_of_replace:
  "targets_of pid (replace_targets pid ids links) = ids"
  "pid' \<noteq> pid \<Longrightarrow> targets_of pid' (replace_targets pid ids links) = targets_of pid' links"
proof -
  have a: "filter (\<lambda>(p, t). p = pid) (filter (\<lambda>(p, t). p \<noteq> pid) links) = []"
    by (induction links) auto
  have b: "filter (\<lambda>(p, t). p = pid) (map (\<lambda>t. (pid, t)) ids) = map (\<lambda>t. (pid, t)) ids"
    by (induction ids) simp_all
  have "targets_of pid (replace_targets pid ids links) = map snd (map (\<lambda>t. (pid, t)) ids)"
    by (simp only: targets_of_def replace_targets_def filter_append a b append_Nil)
  then show "targets_of pid (replace_targets pid ids links) = ids"
    by (simp add: comp_def)
  assume n: "pid' \<noteq> pid"
  have c: "filter (\<lambda>(p, t). p = pid') (filter (\<lambda>(p, t). p \<noteq> pid) links) = filter (\<lambda>(p, t). p = pid') links"
    using n by (induction links) auto
  have d: "filter (\<lambda>(p, t). p = pid') (map (\<lambda>t. (pid, t)) ids) = []"
    using n by (induction ids) simp_all
  show "targets_of pid' (replace_targets pid ids links) = targets_of pid' links"
    by (simp only: targets_of_def replace_targets_def filter_append c d append_Nil2)
qed

lemma entry_of_entry_row: "entry_of_row (entry_row pid i qe) = snd qe"
  by (simp add: entry_of_row_def entry_row_def)

lemma entries_of_replace:
  "map entry_of_row (filter (\<lambda>r. sq_pack_id r = pid) (replace_entries pid es sqs)) = map snd es"
  "pid' \<noteq> pid \<Longrightarrow> filter (\<lambda>r. sq_pack_id r = pid') (replace_entries pid es sqs)
      = filter (\<lambda>r. sq_pack_id r = pid') sqs"
proof -
  define first where "first = Suc (fold max (map sq_id sqs) 0)"
  define new where "new = map (\<lambda>(i, qe). entry_row pid i qe) (zip [first..<first + length es] es)"
  have r: "replace_entries pid es sqs = filter (\<lambda>r. sq_pack_id r \<noteq> pid) sqs @ new"
    by (simp add: replace_entries_def Let_def first_def new_def)
  have a: "filter (\<lambda>r. sq_pack_id r = pid) (filter (\<lambda>r. sq_pack_id r \<noteq> pid) sqs) = []"
    by (auto simp: filter_empty_conv)
  have all: "\<forall>r\<in>set new. sq_pack_id r = pid" by (auto simp: new_def entry_row_def)
  then have b: "filter (\<lambda>r. sq_pack_id r = pid) new = new" by (simp add: filter_id_conv)
  have z: "\<And>xs. length xs = length es \<Longrightarrow>
      map entry_of_row (map (\<lambda>(i, qe). entry_row pid i qe) (zip xs es)) = map snd es"
  proof -
    fix xs :: "nat list" assume "length xs = length es"
    then show "map entry_of_row (map (\<lambda>(i, qe). entry_row pid i qe) (zip xs es)) = map snd es"
      by (induction xs es rule: list_induct2) (simp_all add: entry_of_entry_row)
  qed
  have c: "map entry_of_row new = map snd es"
    unfolding new_def by (rule z) simp
  show "map entry_of_row (filter (\<lambda>r. sq_pack_id r = pid) (replace_entries pid es sqs)) = map snd es"
    by (simp only: r filter_append a b append_Nil c)
  assume n: "pid' \<noteq> pid"
  have d: "filter (\<lambda>r. sq_pack_id r = pid') new = []"
    using all n by (auto simp: filter_empty_conv)
  have e: "filter (\<lambda>r. sq_pack_id r = pid') (filter (\<lambda>r. sq_pack_id r \<noteq> pid) sqs)
      = filter (\<lambda>r. sq_pack_id r = pid') sqs"
    using n by (induction sqs) auto
  show "filter (\<lambda>r. sq_pack_id r = pid') (replace_entries pid es sqs)
      = filter (\<lambda>r. sq_pack_id r = pid') sqs"
    by (simp only: r filter_append d e append_Nil2)
qed

lemma find_None_iff2: "(find P xs = None) = (\<forall>x\<in>set xs. \<not> P x)"
  by (induction xs) auto

lemma find_snoc:
  "find P (xs @ [y]) = (case find P xs of Some x \<Rightarrow> Some x | None \<Rightarrow> if P y then Some y else None)"
  by (induction xs) auto

lemma find_map_same:
  "(\<And>x. P (f x) = P x) \<Longrightarrow> find P (map f xs) = map_option f (find P xs)"
  by (induction xs) auto

lemma upsert_pack_found:
  assumes "upsert_pack spec ps = (pid, ps')"
  shows "\<exists>p'. find (\<lambda>p. pack_name p = SpecName spec) ps' = Some p' \<and> pack_id p' = pid \<and>
          pack_name p' = SpecName spec \<and> pack_disabled p' = SpecDisabled spec"
proof (cases "find (\<lambda>p. pack_name p = SpecName spec) ps")
  case None
  then have n: "\<forall>x\<in>set ps. pack_name x \<noteq> SpecName spec" by (simp add: find_None_iff2)
  from None assms have e: "pid = fresh_pack_id ps"
    "ps' = ps @ [\<lparr>pack_id = fresh_pack_id ps, pack_name = SpecName spec, pack_description = [],
                  pack_platform = [], pack_disabled = SpecDisabled spec, pack_type = None\<rparr>]"
    by (auto simp: upsert_pack_def)
  show ?thesis unfolding e using None by (simp add: find_snoc)
next
  case (Some p)
  let ?f = "\<lambda>r. if pack_name r = SpecName spec then r\<lparr>pack_disabled := SpecDisabled spec\<rparr> else r"
  from Some assms have e: "pid = pack_id p" "ps' = map ?f ps" by (auto simp: upsert_pack_def)
  have "find (\<lambda>p. pack_name p = SpecName spec) (map ?f ps) = map_option ?f (find (\<lambda>p. pack_name p = SpecName spec) ps)"
    by (rule find_map_same) simp
  with Some find_SomeD[OF Some] show ?thesis unfolding e by simp
qed

lemma upsert_pack_other:
  assumes "upsert_pack spec ps = (pid, ps')" and "n \<noteq> SpecName spec"
  shows "find (\<lambda>p. pack_name p = n) ps' = find (\<lambda>p. pack_name p = n) ps"
proof (cases "find (\<lambda>p. pack_name p = SpecName spec) ps")
  case None
  with assms(1) have e:
    "ps' = ps @ [\<lparr>pack_id = fresh_pack_id ps, pack_name = SpecName spec, pack_description = [],
                  pack_platform = [], pack_disabled = SpecDisabled spec, pack_type = None\<rparr>]"
    by (auto simp: upsert_pack_def)
  show ?thesis unfolding e using assms(2) by (simp add: find_snoc split: option.splits)
next
  case (Some p)
  let ?f = "\<lambda>r. if pack_name r = SpecName spec then r\<lparr>pack_disabled := SpecDisabled spec\<rparr> else r"
  from Some assms have e: "ps' = map ?f ps" by (auto simp: upsert_pack_def)
  show ?thesis unfolding e using assms(2) by (induction ps) auto
qed

lemma upsert_pack_keys:
  assumes "upsert_pack spec ps = (pid, ps')"
  shows "(SpecName spec \<in> pack_name ` set ps \<longrightarrow>
            map pack_id ps' = map pack_id ps \<and> map pack_name ps' = map pack_name ps) \<and>
         (SpecName spec \<notin> pack_name ` set ps \<longrightarrow>
            map pack_id ps' = map pack_id ps @ [fresh_pack_id ps] \<and>
            map pack_name ps' = map pack_name ps @ [SpecName spec] \<and> pid = fresh_pack_id ps)"
proof (cases "find (\<lambda>p. pack_name p = SpecName spec) ps")
  case None
  then have n: "SpecName spec \<notin> pack_name ` set ps" by (auto simp: find_None_iff2)
  from None assms have "pid = fresh_pack_id ps"
    "ps' = ps @ [\<lparr>pack_id = fresh_pack_id ps, pack_name = SpecName spec, pack_description = [],
                  pack_platform = [], pack_disabled = SpecDisabled spec, pack_type = None\<rparr>]"
    by (auto simp: upsert_pack_def)
  with n show ?thesis by simp
next
  case (Some p)
  let ?f = "\<lambda>r. if pack_name r = SpecName spec then r\<lparr>pack_disabled := SpecDisabled spec\<rparr> else r"
  from find_SomeD[OF Some] have i: "SpecName spec \<in> pack_name ` set ps" by (metis imageI)
  from Some assms have e: "ps' = map ?f ps" by (auto simp: upsert_pack_def)
  have "map pack_id (map ?f ps) = map pack_id ps" by (induction ps) auto
  moreover have "map pack_name (map ?f ps) = map pack_name ps" by (induction ps) auto
  ultimately show ?thesis using i e by simp
qed

lemma fresh_pack_id_notin: "fresh_pack_id ps \<notin> set (map pack_id ps)"
proof
  assume "fresh_pack_id ps \<in> set (map pack_id ps)"
  then obtain p where "p \<in> set ps" "pack_id p = fresh_pack_id ps" by auto
  with fresh_pack_id_new[of p ps] show False by simp
qed

lemma upsert_pack_distinct:
  assumes u: "upsert_pack spec ps = (pid, ps')"
    and d: "distinct (map pack_id ps)" "distinct (map pack_name ps)"
  shows "distinct (map pack_id ps') \<and> distinct (map pack_name ps')"
proof (cases "SpecName spec \<in> pack_name ` set ps")
  case True
  with upsert_pack_keys[OF u] d show ?thesis by simp
next
  case False
  with upsert_pack_keys[OF u] have k: "map pack_id ps' = map pack_id ps @ [fresh_pack_id ps]"
    "map pack_name ps' = map pack_name ps @ [SpecName spec]" by simp_all
  show ?thesis unfolding k using d False fresh_pack_id_notin[of ps] by simp
qed

lemma upsert_pack_other_id:
  assumes u: "upsert_pack spec ps = (pid, ps')"
    and d: "distinct (map pack_id ps)"
    and p: "p \<in> set ps" "pack_name p \<noteq> SpecName spec"
  shows "pack_id p \<noteq> pid"
proof (cases "find (\<lambda>p. pack_name p = SpecName spec) ps")
  case None
  with u have "pid = fresh_pack_id ps" by (auto simp: upsert_pack_def)
  with fresh_pack_id_new[OF p(1)] show ?thesis by simp
next
  case (Some p0)
  with u have e: "pid = pack_id p0" by (auto simp: upsert_pack_def)
  from find_SomeD[OF Some] have p0: "p0 \<in> set ps" "pack_name p0 = SpecName spec" by simp_all
  show ?thesis
  proof
    assume "pack_id p = pid"
    then have "pack_id p = pack_id p0" using e by simp
    moreover from find_key[OF d p0(1)] have "find (\<lambda>y. pack_id y = pack_id p0) ps = Some p0" .
    moreover from find_key[OF d p(1)] have "find (\<lambda>y. pack_id y = pack_id p) ps = Some p" .
    ultimately have "p = p0" by simp
    with p(2) p0(2) show False by simp
  qed
qed

lemma applyPackSpec_Inr:
  assumes "applyPackSpec st spec = Inr st'"
  obtains lids tids es pid ps' where
    "resolve_all (resolve_label st) (Labels (Targets spec)) = Inr lids"
    "resolve_all (resolve_team st) (Teams (Targets spec)) = Inr tids"
    "resolve_all (resolve_entry st) (Queries spec) = Inr es"
    "upsert_pack spec (tbl_packs st) = (pid, ps')"
    "st' = st\<lparr>tbl_packs := ps',
               tbl_pack_labels := replace_targets pid lids (tbl_pack_labels st),
               tbl_pack_teams := replace_targets pid tids (tbl_pack_teams st),
               tbl_pack_hosts := replace_targets pid (Hosts (Targets spec)) (tbl_pack_hosts st),
               tbl_scheduled_queries := replace_entries pid es (tbl_scheduled_queries st)\<rparr>"
  using assms by (auto simp: applyPackSpec_def split: sum.splits prod.splits)

lemma find_Some_iff_ex: "list_ex P xs \<Longrightarrow> \<exists>x. find P xs = Some x"
  by (induction xs) auto

lemma applyPackSpec_succeeds:
  assumes "resolves st spec"
  shows "\<exists>st'. applyPackSpec st spec = Inr st'"
proof -
  have "\<forall>n\<in>set (Labels (Targets spec)). \<exists>y. resolve_label st n = Inr y"
    using assms by (auto simp: resolves_def resolve_label_def dest!: find_Some_iff_ex)
  from resolve_all_total[OF this] obtain lids where
    l: "resolve_all (resolve_label st) (Labels (Targets spec)) = Inr lids" by blast
  have "\<forall>n\<in>set (Teams (Targets spec)). \<exists>y. resolve_team st n = Inr y"
    using assms by (auto simp: resolves_def resolve_team_def dest!: find_Some_iff_ex)
  from resolve_all_total[OF this] obtain tids where
    t: "resolve_all (resolve_team st) (Teams (Targets spec)) = Inr tids" by blast
  have "\<forall>e\<in>set (Queries spec). \<exists>y. resolve_entry st e = Inr y"
  proof
    fix e assume "e \<in> set (Queries spec)"
    with assms have "list_ex (\<lambda>r. row_name r = QueryName e \<and> row_saved r) (tbl_queries st)"
      by (simp add: resolves_def)
    from find_Some_iff_ex[OF this] show "\<exists>y. resolve_entry st e = Inr y"
      by (auto simp: resolve_entry_def)
  qed
  from resolve_all_total[OF this] obtain es where
    e: "resolve_all (resolve_entry st) (Queries spec) = Inr es" by blast
  show ?thesis using l t e by (simp add: applyPackSpec_def split: prod.splits)
qed

lemma applyPackSpec_tables:
  assumes "applyPackSpec st spec = Inr st'"
  shows "tbl_labels st' = tbl_labels st" "tbl_teams st' = tbl_teams st"
    "tbl_queries st' = tbl_queries st" "tbl_hosts st' = tbl_hosts st"
    "label_results st' = label_results st"
  using assms by (auto elim!: applyPackSpec_Inr)

lemma applyPackSpec_resolves:
  "applyPackSpec st spec = Inr st' \<Longrightarrow> resolves st' s = resolves st s"
  by (simp add: resolves_def applyPackSpec_tables)

lemma applyPackSpec_store_ok:
  assumes a: "applyPackSpec st spec = Inr st'" and ok: "store_ok st"
  shows "store_ok st'"
proof -
  from a obtain lids tids es pid ps' where
    u: "upsert_pack spec (tbl_packs st) = (pid, ps')" and
    s: "st' = st\<lparr>tbl_packs := ps',
               tbl_pack_labels := replace_targets pid lids (tbl_pack_labels st),
               tbl_pack_teams := replace_targets pid tids (tbl_pack_teams st),
               tbl_pack_hosts := replace_targets pid (Hosts (Targets spec)) (tbl_pack_hosts st),
               tbl_scheduled_queries := replace_entries pid es (tbl_scheduled_queries st)\<rparr>"
    by (rule applyPackSpec_Inr)
  from ok have d: "distinct (map pack_id (tbl_packs st))" "distinct (map pack_name (tbl_packs st))"
    by (simp_all add: store_ok_def)
  from upsert_pack_distinct[OF u d] ok show ?thesis by (simp add: s store_ok_def)
qed

lemma applyPackSpec_names:
  assumes a: "applyPackSpec st spec = Inr st'"
  shows "map pack_name (tbl_packs st') =
     map pack_name (tbl_packs st) @
       (if SpecName spec \<in> set (map pack_name (tbl_packs st)) then [] else [SpecName spec])"
proof -
  from a obtain lids tids es pid ps' where
    u: "upsert_pack spec (tbl_packs st) = (pid, ps')" and
    s: "st' = st\<lparr>tbl_packs := ps',
               tbl_pack_labels := replace_targets pid lids (tbl_pack_labels st),
               tbl_pack_teams := replace_targets pid tids (tbl_pack_teams st),
               tbl_pack_hosts := replace_targets pid (Hosts (Targets spec)) (tbl_pack_hosts st),
               tbl_scheduled_queries := replace_entries pid es (tbl_scheduled_queries st)\<rparr>"
    by (rule applyPackSpec_Inr)
  from upsert_pack_keys[OF u] show ?thesis by (simp add: s)
qed

lemma applyPackSpec_reads_back:
  assumes a: "applyPackSpec st spec = Inr st'" and ok: "store_ok st"
  shows "\<exists>pid. GetPackSpec st' (SpecName spec) = Inr ((defaulted spec)\<lparr>SpecID := pid\<rparr>)"
proof -
  from a obtain lids tids es pid ps' where
    l: "resolve_all (resolve_label st) (Labels (Targets spec)) = Inr lids" and
    t: "resolve_all (resolve_team st) (Teams (Targets spec)) = Inr tids" and
    e: "resolve_all (resolve_entry st) (Queries spec) = Inr es" and
    u: "upsert_pack spec (tbl_packs st) = (pid, ps')" and
    s: "st' = st\<lparr>tbl_packs := ps',
               tbl_pack_labels := replace_targets pid lids (tbl_pack_labels st),
               tbl_pack_teams := replace_targets pid tids (tbl_pack_teams st),
               tbl_pack_hosts := replace_targets pid (Hosts (Targets spec)) (tbl_pack_hosts st),
               tbl_scheduled_queries := replace_entries pid es (tbl_scheduled_queries st)\<rparr>"
    by (rule applyPackSpec_Inr)
  from upsert_pack_found[OF u] obtain p' where
    f: "find (\<lambda>p. pack_name p = SpecName spec) ps' = Some p'" and
    p: "pack_id p' = pid" "pack_name p' = SpecName spec" "pack_disabled p' = SpecDisabled spec"
    by blast
  from ok have dl: "distinct (map label_id (tbl_labels st))" and dt: "distinct (map team_id (tbl_teams st))"
    by (simp_all add: store_ok_def)
  have ln: "label_names st' lids = Labels (Targets spec)"
    by (rule label_names_resolved[OF dl resolve_all_Inr[OF l]]) (simp add: s)
  have tn: "team_names st' tids = Teams (Targets spec)"
    by (rule team_names_resolved[OF dt resolve_all_Inr[OF t]]) (simp add: s)
  have en: "map snd es = map default_name (Queries spec)"
    by (rule entries_resolved[OF resolve_all_Inr[OF e]])
  have tl: "targets_of pid (tbl_pack_labels st') = lids" by (simp add: s targets_of_replace)
  have tt: "targets_of pid (tbl_pack_teams st') = tids" by (simp add: s targets_of_replace)
  have th: "targets_of pid (tbl_pack_hosts st') = Hosts (Targets spec)" by (simp add: s targets_of_replace)
  have qs: "map entry_of_row (filter (\<lambda>r. sq_pack_id r = pid) (tbl_scheduled_queries st')) = map default_name (Queries spec)"
    by (simp add: s entries_of_replace(1) en)
  have "spec_of_pack st' p' = (defaulted spec)\<lparr>SpecID := pid\<rparr>"
    unfolding spec_of_pack_def p tl tt th ln tn qs
    by (cases spec, cases "Targets spec") (simp add: defaulted_def)
  moreover have "tbl_packs st' = ps'" by (simp add: s)
  ultimately have "GetPackSpec st' (SpecName spec) = Inr ((defaulted spec)\<lparr>SpecID := pid\<rparr>)"
    using f by (simp add: GetPackSpec_def)
  then show ?thesis ..
qed

lemma applyPackSpec_frame:
  assumes a: "applyPackSpec st spec = Inr st'" and ok: "store_ok st" and n: "n \<noteq> SpecName spec"
  shows "GetPackSpec st' n = GetPackSpec st n"
proof -
  from a obtain lids tids es pid ps' where
    u: "upsert_pack spec (tbl_packs st) = (pid, ps')" and
    s: "st' = st\<lparr>tbl_packs := ps',
               tbl_pack_labels := replace_targets pid lids (tbl_pack_labels st),
               tbl_pack_teams := replace_targets pid tids (tbl_pack_teams st),
               tbl_pack_hosts := replace_targets pid (Hosts (Targets spec)) (tbl_pack_hosts st),
               tbl_scheduled_queries := replace_entries pid es (tbl_scheduled_queries st)\<rparr>"
    by (rule applyPackSpec_Inr)
  have f: "find (\<lambda>p. pack_name p = n) (tbl_packs st') = find (\<lambda>p. pack_name p = n) (tbl_packs st)"
    using upsert_pack_other[OF u n] by (simp add: s)
  show ?thesis
  proof (cases "find (\<lambda>p. pack_name p = n) (tbl_packs st)")
    case None
    with f show ?thesis by (simp add: GetPackSpec_def)
  next
    case (Some p)
    from find_SomeD[OF Some] n have m: "p \<in> set (tbl_packs st)" "pack_name p \<noteq> SpecName spec" by simp_all
    from ok have d: "distinct (map pack_id (tbl_packs st))" by (simp add: store_ok_def)
    from upsert_pack_other_id[OF u d m] have i: "pack_id p \<noteq> pid" .
    have "spec_of_pack st' p = spec_of_pack st p"
      by (simp add: spec_of_pack_def s targets_of_replace(2)[OF i] entries_of_replace(2)[OF i]
          label_names_def team_names_def)
    with f Some show ?thesis by (simp add: GetPackSpec_def)
  qed
qed

lemma apply_specs_succeeds:
  "\<forall>spec\<in>set specs. resolves st spec \<Longrightarrow> \<exists>st'. apply_specs st specs = Inr st'"
proof (induction specs arbitrary: st)
  case Nil then show ?case by simp
next
  case (Cons s ss)
  then have "resolves st s" by simp
  from applyPackSpec_succeeds[OF this] obtain st1 where a: "applyPackSpec st s = Inr st1" by blast
  have "\<forall>spec\<in>set ss. resolves st1 spec"
    using Cons.prems by (simp add: applyPackSpec_resolves[OF a])
  from Cons.IH[OF this] a show ?case by simp
qed

lemma apply_specs_reads_back:
  assumes "apply_specs st specs = Inr st'" and "store_ok st" and "distinct (map SpecName specs)"
  shows "store_ok st' \<and>
    (\<forall>spec\<in>set specs. \<exists>pid. GetPackSpec st' (SpecName spec) = Inr ((defaulted spec)\<lparr>SpecID := pid\<rparr>)) \<and>
    (\<forall>n. n \<notin> SpecName ` set specs \<longrightarrow> GetPackSpec st' n = GetPackSpec st n) \<and>
    map pack_name (tbl_packs st') =
      map pack_name (tbl_packs st) @
        filter (\<lambda>n. n \<notin> set (map pack_name (tbl_packs st))) (map SpecName specs)"
  using assms
proof (induction specs arbitrary: st)
  case Nil then show ?case by simp
next
  case (Cons s ss)
  from Cons.prems(1) obtain st1 where a: "applyPackSpec st s = Inr st1" and r: "apply_specs st1 ss = Inr st'"
    by (auto split: sum.splits)
  have ok1: "store_ok st1" by (rule applyPackSpec_store_ok[OF a Cons.prems(2)])
  from Cons.prems(3) have d: "distinct (map SpecName ss)" and ns: "SpecName s \<notin> SpecName ` set ss"
    by simp_all
  note ih = Cons.IH[OF r ok1 d]
  have n1: "map pack_name (tbl_packs st1) =
     map pack_name (tbl_packs st) @
       (if SpecName s \<in> set (map pack_name (tbl_packs st)) then [] else [SpecName s])"
    by (rule applyPackSpec_names[OF a])
  have fl: "filter (\<lambda>n. n \<notin> set (map pack_name (tbl_packs st1))) (map SpecName ss) =
        filter (\<lambda>n. n \<notin> set (map pack_name (tbl_packs st))) (map SpecName ss)"
  proof (rule filter_cong[OF refl])
    fix n assume "n \<in> set (map SpecName ss)"
    with ns have "n \<noteq> SpecName s" by (metis list.set_map)
    then show "(n \<notin> set (map pack_name (tbl_packs st1))) = (n \<notin> set (map pack_name (tbl_packs st)))"
      unfolding n1 by auto
  qed
  show ?case
  proof (intro conjI ballI allI impI)
    show "store_ok st'" using ih by simp
  next
    fix spec assume "spec \<in> set (s # ss)"
    then consider "spec = s" | "spec \<in> set ss" by auto
    then show "\<exists>pid. GetPackSpec st' (SpecName spec) = Inr ((defaulted spec)\<lparr>SpecID := pid\<rparr>)"
    proof cases
      case 1
      from ih ns have "GetPackSpec st' (SpecName s) = GetPackSpec st1 (SpecName s)" by blast
      with applyPackSpec_reads_back[OF a Cons.prems(2)] 1 show ?thesis by simp
    next
      case 2
      with ih show ?thesis by blast
    qed
  next
    fix n assume "n \<notin> SpecName ` set (s # ss)"
    then have n: "n \<noteq> SpecName s" "n \<notin> SpecName ` set ss" by auto
    from ih n(2) have "GetPackSpec st' n = GetPackSpec st1 n" by blast
    with applyPackSpec_frame[OF a Cons.prems(2) n(1)] show "GetPackSpec st' n = GetPackSpec st n" by simp
  next
    define A where "A = map pack_name (tbl_packs st)"
    define A1 where "A1 = map pack_name (tbl_packs st1)"
    define B where "B = map SpecName ss"
    have e1: "map pack_name (tbl_packs st') = A1 @ filter (\<lambda>n. n \<notin> set A1) B"
      using ih by (simp add: A1_def B_def)
    have e2: "filter (\<lambda>n. n \<notin> set A1) B = filter (\<lambda>n. n \<notin> set A) B"
      using fl by (simp only: A_def A1_def B_def)
    have e3: "A1 = A @ (if SpecName s \<in> set A then [] else [SpecName s])"
      using n1 by (simp only: A_def A1_def)
    have "map pack_name (tbl_packs st') = A1 @ filter (\<lambda>n. n \<notin> set A) B"
      by (simp only: e1 e2)
    then have "map pack_name (tbl_packs st') =
        (A @ (if SpecName s \<in> set A then [] else [SpecName s])) @ filter (\<lambda>n. n \<notin> set A) B"
      by (simp only: e3)
    then have "map pack_name (tbl_packs st') = A @ filter (\<lambda>n. n \<notin> set A) (SpecName s # B)"
      by simp
    then show "map pack_name (tbl_packs st') =
      map pack_name (tbl_packs st) @
        filter (\<lambda>n. n \<notin> set (map pack_name (tbl_packs st))) (map SpecName (s # ss))"
      by (simp only: A_def B_def list.map)
  qed
qed

lemma GetPackSpecs_by_name:
  assumes ok: "store_ok st"
  shows "map Inr (GetPackSpecs st) = map (GetPackSpec st) (map pack_name (tbl_packs st))"
proof -
  from ok have d: "distinct (map pack_name (tbl_packs st))" by (simp add: store_ok_def)
  have "\<And>p. p \<in> set (tbl_packs st) \<Longrightarrow> GetPackSpec st (pack_name p) = Inr (spec_of_pack st p)"
    using find_key[OF d] by (simp add: GetPackSpec_def)
  then show ?thesis by (simp add: GetPackSpecs_def)
qed

lemma store_setup_queries:
  "tbl_queries store_setup =
     [\<lparr>row_id = 1, row_created_at = 100, row_name = ''foo'', row_description = ''get the foos'',
       row_query = ''select * from foo'', row_author_id = Some 1, row_saved = True,
       row_observer_can_run = False\<rparr>,
      \<lparr>row_id = 2, row_created_at = 100, row_name = ''bar'', row_description = ''do some bars'',
       row_query = ''select baz from bar'', row_author_id = Some 1, row_saved = True,
       row_observer_can_run = False\<rparr>]"
  by (simp add: store_setup_def ApplyQueries_def ok_backend_def query_foo_def query_bar_def
      exec_upsert_def insert_values_def insert_row_def fresh_id_def)

lemma store_setup_tables:
  "tbl_packs store_setup = []" "tbl_scheduled_queries store_setup = []"
  "tbl_pack_labels store_setup = []" "tbl_pack_hosts store_setup = []"
  "tbl_pack_teams store_setup = []" "tbl_teams store_setup = []"
  "tbl_labels store_setup = [\<lparr>label_id = 1, label_name = ''foo''\<rparr>, \<lparr>label_id = 2, label_name = ''bar''\<rparr>,
                    \<lparr>label_id = 3, label_name = ''bing''\<rparr>]"
  by (simp_all add: store_setup_def)

lemma defaulted_nonblank:
  "\<forall>e\<in>set (Queries spec). EntryName e \<noteq> [] \<Longrightarrow> defaulted spec = spec"
proof -
  assume "\<forall>e\<in>set (Queries spec). EntryName e \<noteq> []"
  then have "map default_name (Queries spec) = map (\<lambda>e. e) (Queries spec)"
    by (intro map_cong) (simp_all add: default_name_def)
  then show ?thesis by (simp add: defaulted_def)
qed

lemmas pack_eval =
  ApplyPackSpecs_def applyPackSpec_def store_setup_queries
  store_setup_tables resolve_entry_def resolve_label_def resolve_team_def default_name_def entry_def
  upsert_pack_def fresh_pack_id_def replace_targets_def replace_entries_def GetPackSpec_def
  GetPackSpecs_def spec_of_pack_def targets_of_def label_names_def team_names_def entry_row_def
  entry_of_row_def

section \<open>Round trip of pack specs\<close>

text \<open>
  Claim C1, as stated, at a concrete input: the spec of \<^verbatim>\<open>TestApplyPackSpecMissingName\<close>,
  whose one entry has a blank display name, applied to the prepared store. The call
  succeeds, and the spec read back, by name or in the list of all specs, is not the input:
  the entry comes back named \<open>foo\<close>, after its query.
\<close>

theorem GetPackSpec_blank_name_counterexample:
  "fst (ApplyPackSpecs store_setup [spec_test2]) = None \<and>
   GetPackSpec (snd (ApplyPackSpecs store_setup [spec_test2])) ''test2'' =
     Inr (spec_test2\<lparr>Queries := [entry ''foo'' ''foo'' [] 600]\<rparr>) \<and>
   GetPackSpec (snd (ApplyPackSpecs store_setup [spec_test2])) ''test2'' \<noteq> Inr spec_test2 \<and>
   GetPackSpecs (snd (ApplyPackSpecs store_setup [spec_test2])) \<noteq> [spec_test2]"
  by (simp add: ApplyPackSpecs_def applyPackSpec_def spec_test2_def store_setup_queries
      store_setup_tables resolve_entry_def default_name_def entry_def upsert_pack_def
      fresh_pack_id_def replace_targets_def replace_entries_def GetPackSpec_def GetPackSpecs_def
      spec_of_pack_def targets_of_def label_names_def team_names_def entry_row_def
      entry_of_row_def)

text \<open>
  Claim C1, amended. On a store whose keys are unique, a list of PackSpecs with pairwise
  different names, whose label, team and query references all resolve and whose entries
  all carry a display name, is applied without error; afterwards \<^verbatim>\<open>GetPackSpec\<close> returns,
  under the name of each spec, that spec with the pack's identifier in \<open>SpecID\<close> and every
  other field as given, the optional per-entry fields included (unset stays unset, false
  stays false); and when the store held no pack before, \<^verbatim>\<open>GetPackSpecs\<close> returns the specs
  of the list, in order, equal to the input up to \<open>SpecID\<close>.
\<close>

theorem ApplyPackSpecs_roundtrip:
  assumes ok: "store_ok st" and d: "distinct (map SpecName specs)"
    and r: "\<forall>spec\<in>set specs. resolves st spec"
    and nb: "\<forall>spec\<in>set specs. \<forall>e\<in>set (Queries spec). EntryName e \<noteq> []"
  shows "\<exists>st'. ApplyPackSpecs st specs = (None, st') \<and>
    (\<forall>spec\<in>set specs. \<exists>pid. GetPackSpec st' (SpecName spec) = Inr (spec\<lparr>SpecID := pid\<rparr>)) \<and>
    (tbl_packs st = [] \<longrightarrow>
       map (\<lambda>s. s\<lparr>SpecID := 0\<rparr>) (GetPackSpecs st') = map (\<lambda>s. s\<lparr>SpecID := 0\<rparr>) specs)"
proof -
  from apply_specs_succeeds[OF r] obtain st' where a: "apply_specs st specs = Inr st'" by blast
  note rb = apply_specs_reads_back[OF a ok d]
  have g: "\<forall>spec\<in>set specs. \<exists>pid. GetPackSpec st' (SpecName spec) = Inr (spec\<lparr>SpecID := pid\<rparr>)"
  proof
    fix spec assume s: "spec \<in> set specs"
    with nb have "defaulted spec = spec" by (simp add: defaulted_nonblank)
    with rb s show "\<exists>pid. GetPackSpec st' (SpecName spec) = Inr (spec\<lparr>SpecID := pid\<rparr>)" by fastforce
  qed
  have all: "tbl_packs st = [] \<longrightarrow>
       map (\<lambda>s. s\<lparr>SpecID := 0\<rparr>) (GetPackSpecs st') = map (\<lambda>s. s\<lparr>SpecID := 0\<rparr>) specs"
  proof
    assume e: "tbl_packs st = []"
    from rb have ok': "store_ok st'" by simp
    from rb e have n: "map pack_name (tbl_packs st') = map SpecName specs" by simp
    have "map Inr (GetPackSpecs st') = map (GetPackSpec st') (map SpecName specs)"
      using GetPackSpecs_by_name[OF ok'] n by simp
    then have m: "map Inr (GetPackSpecs st') = map (\<lambda>s. GetPackSpec st' (SpecName s)) specs"
      by (simp add: comp_def)
    have l: "length (GetPackSpecs st') = length specs"
      using arg_cong[OF m, of length] by simp
    show "map (\<lambda>s. s\<lparr>SpecID := 0\<rparr>) (GetPackSpecs st') = map (\<lambda>s. s\<lparr>SpecID := 0\<rparr>) specs"
    proof (rule nth_equalityI)
      show "length (map (\<lambda>s. s\<lparr>SpecID := 0\<rparr>) (GetPackSpecs st')) = length (map (\<lambda>s. s\<lparr>SpecID := 0\<rparr>) specs)"
        using l by simp
    next
      fix i assume "i < length (map (\<lambda>s. s\<lparr>SpecID := 0\<rparr>) (GetPackSpecs st'))"
      then have i: "i < length specs" using l by simp
      from arg_cong[OF m, of "\<lambda>xs. xs ! i"] i l
      have "Inr (GetPackSpecs st' ! i) = GetPackSpec st' (SpecName (specs ! i))" by simp
      moreover from g i obtain pid where
        "GetPackSpec st' (SpecName (specs ! i)) = Inr ((specs ! i)\<lparr>SpecID := pid\<rparr>)"
        using nth_mem by blast
      ultimately have "GetPackSpecs st' ! i = (specs ! i)\<lparr>SpecID := pid\<rparr>" by simp
      then show "map (\<lambda>s. s\<lparr>SpecID := 0\<rparr>) (GetPackSpecs st') ! i = map (\<lambda>s. s\<lparr>SpecID := 0\<rparr>) specs ! i"
        using i l by simp
    qed
  qed
  from a have "ApplyPackSpecs st specs = (None, st')" by (simp add: ApplyPackSpecs_def)
  with g all show ?thesis by blast
qed

theorem ApplyPackSpecs_roundtrip_witness:
  "store_ok store_setup \<and> distinct (map SpecName expectedSpecs) \<and>
   list_all (resolves store_setup) expectedSpecs \<and>
   list_all (\<lambda>spec. list_all (\<lambda>e. EntryName e \<noteq> []) (Queries spec)) expectedSpecs \<and>
   tbl_packs store_setup = [] \<and>
   fst (ApplyPackSpecs store_setup expectedSpecs) = None \<and>
   GetPackSpecs (snd (ApplyPackSpecs store_setup expectedSpecs)) = expectedSpecs \<and>
   GetPackSpec (snd (ApplyPackSpecs store_setup expectedSpecs)) ''test_pack'' = Inr (expectedSpecs ! 0) \<and>
   GetPackSpec (snd (ApplyPackSpecs store_setup expectedSpecs)) ''test_pack_disabled''
     = Inr (expectedSpecs ! 1)"
  using ApplyPackSpecs_roundtrip[of store_setup expectedSpecs]
  by (simp add: pack_eval expectedSpecs_def store_ok_def resolves_def)

section \<open>Blank display names\<close>

text \<open>
  Claim C7. After a batch with pairwise different pack names has been applied without
  error to a store with unique keys, each spec of the batch reads back with as many
  entries as it has, each under the query name it was given; an entry whose display name
  was blank comes back, and is stored in its row, under its query's name, every other
  entry under its own display name.
\<close>

theorem ApplyPackSpecs_defaults_blank_names:
  assumes ok: "store_ok st" and d: "distinct (map SpecName specs)"
    and a: "ApplyPackSpecs st specs = (None, st')" and s: "spec \<in> set specs"
  shows "\<exists>got. GetPackSpec st' (SpecName spec) = Inr got \<and>
     length (Queries got) = length (Queries spec) \<and>
     map sq_name (filter (\<lambda>r. sq_pack_id r = SpecID got) (tbl_scheduled_queries st'))
       = map EntryName (Queries got) \<and>
     (\<forall>i<length (Queries spec).
        QueryName (Queries got ! i) = QueryName (Queries spec ! i) \<and>
        EntryName (Queries got ! i) =
          (if EntryName (Queries spec ! i) = [] then QueryName (Queries spec ! i)
           else EntryName (Queries spec ! i)))"
proof -
  from a have a': "apply_specs st specs = Inr st'"
    by (auto simp: ApplyPackSpecs_def split: sum.splits)
  from apply_specs_reads_back[OF a' ok d] s obtain pid where
    g: "GetPackSpec st' (SpecName spec) = Inr ((defaulted spec)\<lparr>SpecID := pid\<rparr>)" by blast
  let ?got = "(defaulted spec)\<lparr>SpecID := pid\<rparr>"
  from g obtain p where p': "spec_of_pack st' p = ?got"
    by (auto simp: GetPackSpec_def split: option.splits)
  note p = p'[symmetric]
  have r: "map sq_name (filter (\<lambda>r. sq_pack_id r = SpecID (spec_of_pack st' p)) (tbl_scheduled_queries st'))
       = map EntryName (Queries (spec_of_pack st' p))"
    by (simp add: spec_of_pack_def entry_of_row_def comp_def)
  have q: "Queries ?got = map default_name (Queries spec)" by (simp add: defaulted_def)
  have "length (Queries ?got) = length (Queries spec)" by (simp add: q)
  moreover have "map sq_name (filter (\<lambda>r. sq_pack_id r = SpecID ?got) (tbl_scheduled_queries st'))
       = map EntryName (Queries ?got)"
    using r by (simp only: p)
  moreover have "\<forall>i<length (Queries spec).
        QueryName (Queries ?got ! i) = QueryName (Queries spec ! i) \<and>
        EntryName (Queries ?got ! i) =
          (if EntryName (Queries spec ! i) = [] then QueryName (Queries spec ! i)
           else EntryName (Queries spec ! i))"
    by (simp add: q default_name_def)
  ultimately show ?thesis using g by blast
qed

theorem ApplyPackSpecs_defaults_blank_names_witness:
  "store_ok (snd (ApplyPackSpecs store_setup expectedSpecs)) \<and>
   distinct (map SpecName [spec_test2]) \<and>
   fst (ApplyPackSpecs (snd (ApplyPackSpecs store_setup expectedSpecs)) [spec_test2]) = None \<and>
   EntryName (Queries spec_test2 ! 0) = [] \<and>
   map (\<lambda>got. EntryName (Queries got ! 0))
     [projr (GetPackSpec (snd (ApplyPackSpecs (snd (ApplyPackSpecs store_setup expectedSpecs)) [spec_test2]))
        ''test2'')] = [''foo'']"
  using ApplyPackSpecs_defaults_blank_names[of "snd (ApplyPackSpecs store_setup expectedSpecs)"
      "[spec_test2]" "snd (ApplyPackSpecs (snd (ApplyPackSpecs store_setup expectedSpecs)) [spec_test2])"
      spec_test2]
  by (simp add: pack_eval expectedSpecs_def spec_test2_def store_ok_def)

section \<open>Unknown query references\<close>

lemma contains_self: "contains s s"
  by (cases s) simp_all

lemma find_None_ex: "\<not> list_ex P xs \<Longrightarrow> find P xs = None"
  by (induction xs) auto

lemma resolve_entry_unknown:
  "\<not> saved_query st (QueryName e) \<Longrightarrow> resolve_entry st e = Inl (unknown_query (QueryName e))"
  by (simp add: saved_query_def resolve_entry_def find_None_ex)

lemma resolve_entry_known:
  "saved_query st (QueryName e) \<Longrightarrow> \<exists>y. resolve_entry st e = Inr y"
  unfolding saved_query_def resolve_entry_def
  by (drule find_Some_iff_ex) auto

lemma resolve_entries_first:
  "resolve_all (resolve_entry st) es =
     (case find (\<lambda>n. \<not> saved_query st n) (map QueryName es) of
        Some n \<Rightarrow> Inl (unknown_query n)
      | None \<Rightarrow> resolve_all (resolve_entry st) es)"
proof (induction es)
  case Nil then show ?case by simp
next
  case (Cons e es)
  show ?case
  proof (cases "saved_query st (QueryName e)")
    case False
    then show ?thesis by (simp add: resolve_entry_unknown)
  next
    case True
    from resolve_entry_known[OF True] obtain y where y: "resolve_entry st e = Inr y" by blast
    show ?thesis
    proof (cases "find (\<lambda>n. \<not> saved_query st n) (map QueryName es)")
      case None
      with True show ?thesis by simp
    next
      case (Some n)
      with Cons.IH have "resolve_all (resolve_entry st) es = Inl (unknown_query n)" by simp
      with True Some y show ?thesis by simp
    qed
  qed
qed

lemma applyPackSpec_unknown_query:
  assumes "e \<in> set (Queries spec)" and "\<not> saved_query st (QueryName e)"
  shows "\<exists>err. applyPackSpec st spec = Inl err"
proof -
  from resolve_all_fails[where f="resolve_entry st", OF assms(1) resolve_entry_unknown[OF assms(2)]]
  obtain e' where "resolve_all (resolve_entry st) (Queries spec) = Inl e'" by blast
  then show ?thesis by (simp add: applyPackSpec_def split: sum.splits)
qed

lemma applyPackSpec_saved_query:
  "applyPackSpec st spec = Inr st' \<Longrightarrow> saved_query st' n = saved_query st n"
  by (simp add: saved_query_def applyPackSpec_tables)

lemma apply_specs_unknown_query:
  assumes "spec \<in> set specs" and "e \<in> set (Queries spec)" and "\<not> saved_query st (QueryName e)"
  shows "\<exists>err. apply_specs st specs = Inl err"
  using assms
proof (induction specs arbitrary: st)
  case Nil then show ?case by simp
next
  case (Cons s ss)
  show ?case
  proof (cases "applyPackSpec st s")
    case (Inl err)
    then show ?thesis by simp
  next
    case (Inr st1)
    have "spec \<noteq> s"
    proof
      assume "spec = s"
      with applyPackSpec_unknown_query[OF Cons.prems(2,3)] Inr show False by simp
    qed
    with Cons.prems have m: "spec \<in> set ss" by simp
    from Cons.prems(3) have "\<not> saved_query st1 (QueryName e)"
      by (simp add: applyPackSpec_saved_query[OF Inr])
    from Cons.IH[OF m Cons.prems(2) this] Inr show ?thesis by simp
  qed
qed

lemma applyPackSpec_targets_resolve:
  assumes "targets_resolve st spec"
  shows "applyPackSpec st spec =
     (case find (\<lambda>n. \<not> saved_query st n) (map QueryName (Queries spec)) of
        Some n \<Rightarrow> Inl (unknown_query n)
      | None \<Rightarrow> applyPackSpec st spec)"
proof (cases "find (\<lambda>n. \<not> saved_query st n) (map QueryName (Queries spec))")
  case None then show ?thesis by simp
next
  case (Some n)
  have "\<forall>n\<in>set (Labels (Targets spec)). \<exists>y. resolve_label st n = Inr y"
    using assms by (auto simp: targets_resolve_def list_all_iff resolve_label_def dest!: find_Some_iff_ex)
  from resolve_all_total[OF this] obtain lids where
    l: "resolve_all (resolve_label st) (Labels (Targets spec)) = Inr lids" by blast
  have "\<forall>n\<in>set (Teams (Targets spec)). \<exists>y. resolve_team st n = Inr y"
    using assms by (auto simp: targets_resolve_def list_all_iff resolve_team_def dest!: find_Some_iff_ex)
  from resolve_all_total[OF this] obtain tids where
    t: "resolve_all (resolve_team st) (Teams (Targets spec)) = Inr tids" by blast
  from resolve_entries_first[of st "Queries spec"] Some
  have "resolve_all (resolve_entry st) (Queries spec) = Inl (unknown_query n)" by simp
  with l t Some show ?thesis by (simp add: applyPackSpec_def)
qed

lemma applyPackSpec_targets_resolve_later:
  "applyPackSpec st spec = Inr st' \<Longrightarrow> targets_resolve st' s = targets_resolve st s"
  by (simp add: targets_resolve_def applyPackSpec_tables)

lemma find_append2:
  "find P (xs @ ys) = (case find P xs of Some x \<Rightarrow> Some x | None \<Rightarrow> find P ys)"
  by (induction xs) auto

lemma apply_specs_first_unknown:
  assumes "list_all (targets_resolve st) specs"
    and "find (\<lambda>n. \<not> saved_query st n) (query_names specs) = Some n"
  shows "apply_specs st specs = Inl (unknown_query n)"
  using assms
proof (induction specs arbitrary: st)
  case Nil then show ?case by (simp add: query_names_def)
next
  case (Cons s ss)
  from Cons.prems(1) have ts: "targets_resolve st s" and tss: "list_all (targets_resolve st) ss"
    by simp_all
  have q: "query_names (s # ss) = map QueryName (Queries s) @ query_names ss"
    by (simp add: query_names_def)
  show ?case
  proof (cases "find (\<lambda>n. \<not> saved_query st n) (map QueryName (Queries s))")
    case (Some m)
    with Cons.prems(2) have "m = n" by (simp add: q find_append2)
    with applyPackSpec_targets_resolve[OF ts] Some show ?thesis by simp
  next
    case None
    with Cons.prems(2) have f: "find (\<lambda>n. \<not> saved_query st n) (query_names ss) = Some n"
      by (simp add: q find_append2)
    show ?thesis
    proof (cases "applyPackSpec st s")
      case (Inl err)
      have "resolves st s"
        using ts None by (auto simp: resolves_def targets_resolve_def list_all_iff find_None_iff2 saved_query_def)
      from applyPackSpec_succeeds[OF this] Inl show ?thesis by simp
    next
      case (Inr st1)
      have a: "list_all (targets_resolve st1) ss"
        using tss by (simp add: list_all_iff applyPackSpec_targets_resolve_later[OF Inr])
      have "(\<lambda>n. \<not> saved_query st1 n) = (\<lambda>n. \<not> saved_query st n)"
        by (rule ext) (simp add: applyPackSpec_saved_query[OF Inr])
      with f have b: "find (\<lambda>n. \<not> saved_query st1 n) (query_names ss) = Some n" by simp
      from Cons.IH[OF a b] Inr show ?thesis by simp
    qed
  qed
qed

text \<open>
  Claim C3, as stated, at a concrete input: on the empty store, a batch of a spec that
  targets an unknown label and the spec of \<^verbatim>\<open>TestApplyPackSpecMissingQueries\<close>, which
  schedules the unknown query \<open>bar\<close>. The batch fails and nothing persists, but the error
  is the one of the label, met first: its message does not contain
  \<^verbatim>\<open>unknown query 'bar'\<close>.
\<close>

theorem ApplyPackSpecs_unknown_label_first_counterexample:
  "spec_missing_query \<in> set [spec_missing_label, spec_missing_query] \<and>
   map QueryName (Queries spec_missing_query) = [''bar''] \<and>
   \<not> saved_query store_empty ''bar'' \<and>
   ApplyPackSpecs store_empty [spec_missing_label, spec_missing_query] =
     (Some (unknown_label ''UnexistentLabel''), store_empty) \<and>
   \<not> contains (error_string (unknown_label ''UnexistentLabel'')) (''unknown query '' @ quoted ''bar'')"
  by (simp add: ApplyPackSpecs_def applyPackSpec_def spec_missing_label_def spec_missing_query_def
      store_empty_def resolve_label_def saved_query_def entry_def unknown_label_def quoted_def)

text \<open>
  Claim C3, amended. When some scheduled entry of a batch references a query name with no
  saved query, \<^verbatim>\<open>ApplyPackSpecs\<close> fails and the store is the one it started from; when
  moreover every label and team reference of the batch resolves, the error is the unknown
  query error of the first unresolved query name of the batch, and its message contains
  \<^verbatim>\<open>unknown query '<name>'\<close> for that name.
\<close>

theorem ApplyPackSpecs_unknown_query:
  assumes s: "spec \<in> set specs" and e: "e \<in> set (Queries spec)"
    and u: "\<not> saved_query st (QueryName e)"
  shows "\<exists>err. ApplyPackSpecs st specs = (Some err, st) \<and>
    (list_all (targets_resolve st) specs \<longrightarrow>
       (\<exists>n. find (\<lambda>n. \<not> saved_query st n) (query_names specs) = Some n \<and>
            err = unknown_query n \<and>
            contains (error_string err) (''unknown query '' @ quoted n)))"
proof -
  from apply_specs_unknown_query[OF s e u] obtain err where a: "apply_specs st specs = Inl err"
    by blast
  have r: "ApplyPackSpecs st specs = (Some err, st)" using a by (simp add: ApplyPackSpecs_def)
  have "list_all (targets_resolve st) specs \<longrightarrow>
       (\<exists>n. find (\<lambda>n. \<not> saved_query st n) (query_names specs) = Some n \<and>
            err = unknown_query n \<and>
            contains (error_string err) (''unknown query '' @ quoted n))"
  proof
    assume t: "list_all (targets_resolve st) specs"
    have "QueryName e \<in> set (query_names specs)"
      using s e by (auto simp: query_names_def)
    with u have "find (\<lambda>n. \<not> saved_query st n) (query_names specs) \<noteq> None"
      by (auto simp: find_None_iff2)
    then obtain n where f: "find (\<lambda>n. \<not> saved_query st n) (query_names specs) = Some n" by auto
    from apply_specs_first_unknown[OF t f] a have "err = unknown_query n" by simp
    moreover have "contains (error_string (unknown_query n)) (''unknown query '' @ quoted n)"
      unfolding unknown_query_def error_string.simps by (rule contains_self)
    ultimately show "\<exists>n. find (\<lambda>n. \<not> saved_query st n) (query_names specs) = Some n \<and>
            err = unknown_query n \<and>
            contains (error_string err) (''unknown query '' @ quoted n)"
      using f by blast
  qed
  with r show ?thesis by blast
qed

theorem ApplyPackSpecs_unknown_query_witness:
  "spec_missing_query \<in> set [spec_missing_query] \<and>
   entry ''bar'' [] [] 600 \<in> set (Queries spec_missing_query) \<and>
   \<not> saved_query store_empty (QueryName (entry ''bar'' [] [] 600)) \<and>
   list_all (targets_resolve store_empty) [spec_missing_query] \<and>
   ApplyPackSpecs store_empty [spec_missing_query] = (Some (unknown_query ''bar''), store_empty) \<and>
   contains (error_string (unknown_query ''bar'')) (''unknown query '' @ quoted ''bar'')"
  using ApplyPackSpecs_unknown_query[of spec_missing_query "[spec_missing_query]"
      "entry ''bar'' [] [] 600" store_empty]
  by (simp add: ApplyPackSpecs_def applyPackSpec_def spec_missing_query_def
      store_empty_def resolve_entry_def saved_query_def entry_def unknown_query_def quoted_def
      targets_resolve_def)

section \<open>The packs of a host\<close>

lemma store_two_packs_eval:
  "store_two_packs = store_two_labels\<lparr>
      tbl_packs := [\<lparr>pack_id = 1, pack_name = ''foo_pack'', pack_description = [],
                  pack_platform = [], pack_disabled = False, pack_type = None\<rparr>,
                  \<lparr>pack_id = 2, pack_name = ''shmoo_pack'', pack_description = [],
                  pack_platform = [], pack_disabled = False, pack_type = None\<rparr>],
      tbl_pack_labels := [(1, 1), (1, 2), (2, 2)]\<rparr>"
  by (simp add: store_two_packs_def ApplyPackSpecs_def applyPackSpec_def store_two_labels_def
      store_empty_def spec_foo_pack_def spec_shmoo_pack_def resolve_label_def upsert_pack_def
      fresh_pack_id_def replace_targets_def replace_entries_def)

lemma list_ex_prod_iff:
  "list_ex (\<lambda>(a, b). P a b) xs = (\<exists>a b. (a, b) \<in> set xs \<and> P a b)"
  by (auto simp: list_ex_iff)

text \<open>
  Claim C4. On a packs table with unique identifiers, \<^verbatim>\<open>ListPacksForHost\<close> returns exactly
  the packs that are not disabled and have a criterion satisfied: a targeted label whose
  recorded result for the host is true, the host itself as a target, or the host's team as
  a target. No pack identifier occurs twice in the result, no returned pack is disabled,
  and a pack none of whose targeted labels has the result true (absent results included),
  which targets neither the host nor its team, is not in the result.
\<close>

theorem ListPacksForHost_membership:
  assumes "distinct (map pack_id (tbl_packs st))"
  shows "(\<forall>p. p \<in> set (ListPacksForHost st hid) \<longleftrightarrow>
            (\<exists>r\<in>set (tbl_packs st). p = scan_pack r \<and> \<not> pack_disabled r \<and>
               ((\<exists>lid. (pack_id r, lid) \<in> set (tbl_pack_labels st) \<and>
                       label_results st hid lid = Some True) \<or>
                (pack_id r, hid) \<in> set (tbl_pack_hosts st) \<or>
                (\<exists>t. host_team st hid = Some t \<and> (pack_id r, t) \<in> set (tbl_pack_teams st))))) \<and>
         distinct (map PackID (ListPacksForHost st hid)) \<and>
         (\<forall>p\<in>set (ListPacksForHost st hid). \<not> PackDisabled p) \<and>
         (\<forall>r\<in>set (tbl_packs st).
            (\<forall>lid. (pack_id r, lid) \<in> set (tbl_pack_labels st) \<longrightarrow>
                   label_results st hid lid \<noteq> Some True) \<and>
            (pack_id r, hid) \<notin> set (tbl_pack_hosts st) \<and>
            (\<forall>t. (pack_id r, t) \<in> set (tbl_pack_teams st) \<longrightarrow> host_team st hid \<noteq> Some t) \<longrightarrow>
            pack_id r \<notin> PackID ` set (ListPacksForHost st hid))"
proof -
  let ?sat = "\<lambda>r. ((\<exists>lid. (pack_id r, lid) \<in> set (tbl_pack_labels st) \<and>
                       label_results st hid lid = Some True) \<or>
                (pack_id r, hid) \<in> set (tbl_pack_hosts st) \<or>
                (\<exists>t. host_team st hid = Some t \<and> (pack_id r, t) \<in> set (tbl_pack_teams st)))"
  have c: "\<And>r. (label_criterion st hid r \<or> host_criterion st hid r \<or> team_criterion st hid r) = ?sat r"
    unfolding label_criterion_def host_criterion_def team_criterion_def list_ex_prod_iff by blast
  have l: "ListPacksForHost st hid = map scan_pack (filter (\<lambda>r. \<not> pack_disabled r \<and> ?sat r) (tbl_packs st))"
    unfolding ListPacksForHost_def c ..
  have i: "map PackID (ListPacksForHost st hid) = map pack_id (filter (\<lambda>r. \<not> pack_disabled r \<and> ?sat r) (tbl_packs st))"
    unfolding l by (simp add: scan_pack_def comp_def)
  have 1: "\<forall>p. p \<in> set (ListPacksForHost st hid) \<longleftrightarrow>
            (\<exists>r\<in>set (tbl_packs st). p = scan_pack r \<and> \<not> pack_disabled r \<and> ?sat r)"
    unfolding l by auto
  have 2: "distinct (map PackID (ListPacksForHost st hid))"
    unfolding i using assms by (rule distinct_map_filter)
  have 3: "\<forall>p\<in>set (ListPacksForHost st hid). \<not> PackDisabled p"
    unfolding l by (auto simp: scan_pack_def)
  have 4: "\<forall>r\<in>set (tbl_packs st).
            (\<forall>lid. (pack_id r, lid) \<in> set (tbl_pack_labels st) \<longrightarrow>
                   label_results st hid lid \<noteq> Some True) \<and>
            (pack_id r, hid) \<notin> set (tbl_pack_hosts st) \<and>
            (\<forall>t. (pack_id r, t) \<in> set (tbl_pack_teams st) \<longrightarrow> host_team st hid \<noteq> Some t) \<longrightarrow>
            pack_id r \<notin> PackID ` set (ListPacksForHost st hid)"
  proof (intro ballI impI)
    fix r assume r: "r \<in> set (tbl_packs st)" and n: "(\<forall>lid. (pack_id r, lid) \<in> set (tbl_pack_labels st) \<longrightarrow>
                   label_results st hid lid \<noteq> Some True) \<and>
            (pack_id r, hid) \<notin> set (tbl_pack_hosts st) \<and>
            (\<forall>t. (pack_id r, t) \<in> set (tbl_pack_teams st) \<longrightarrow> host_team st hid \<noteq> Some t)"
    then have ns: "\<not> ?sat r" by blast
    show "pack_id r \<notin> PackID ` set (ListPacksForHost st hid)"
    proof
      assume "pack_id r \<in> PackID ` set (ListPacksForHost st hid)"
      then have "pack_id r \<in> set (map PackID (ListPacksForHost st hid))" by simp
      then have "\<exists>r'\<in>set (filter (\<lambda>r. \<not> pack_disabled r \<and> ?sat r) (tbl_packs st)). pack_id r = pack_id r'"
        unfolding i by (simp only: set_map image_iff)
      then obtain r' where a: "r' \<in> set (filter (\<lambda>r. \<not> pack_disabled r \<and> ?sat r) (tbl_packs st))"
        and b: "pack_id r = pack_id r'" by blast
      from a have "r' \<in> set (tbl_packs st) \<and> (\<not> pack_disabled r' \<and> ?sat r')"
        unfolding set_filter mem_Collect_eq .
      then have m: "r' \<in> set (tbl_packs st)" and s: "?sat r'" by blast+
      have f1: "find (\<lambda>y. pack_id y = pack_id r') (tbl_packs st) = Some r"
        using find_key[OF assms r] unfolding b .
      have f2: "find (\<lambda>y. pack_id y = pack_id r') (tbl_packs st) = Some r'"
        by (rule find_key[OF assms m])
      have "Some r = Some r'" by (rule trans[OF sym[OF f1] f2])
      then have "r' = r" by simp
      with s ns show False by simp
    qed
  qed
  from 1 2 3 4 show ?thesis by blast
qed

theorem ListPacksForHost_membership_witness:
  "distinct (map pack_id (tbl_packs store_two_packs)) \<and>
   map PackName (ListPacksForHost store_two_packs 1) = [] \<and>
   map PackName (ListPacksForHost (record_label_result store_two_packs 1 1 True) 1) = [''foo_pack''] \<and>
   map PackName (ListPacksForHost
      (record_label_result (record_label_result store_two_packs 1 1 False) 1 2 True) 1)
     = [''foo_pack'', ''shmoo_pack''] \<and>
   map PackName (ListPacksForHost
      (record_label_result (record_label_result store_two_packs 1 1 True) 1 2 True) 1)
     = [''foo_pack'', ''shmoo_pack''] \<and>
   map PackName (ListPacksForHost
      (record_label_result (record_label_result store_two_packs 1 1 True) 1 2 False) 1)
     = [''foo_pack''] \<and>
   map PackName (ListPacksForHost
      (record_label_result (record_label_result store_two_packs 1 1 False) 1 2 False) 1)
     = []"
  using ListPacksForHost_membership[of
      "record_label_result (record_label_result store_two_packs 1 1 True) 1 2 True" 1]
  by (simp add: store_two_packs_eval store_two_labels_def store_empty_def ListPacksForHost_def
      record_label_result_def label_criterion_def host_criterion_def team_criterion_def
      host_team_def scan_pack_def)

section \<open>Renaming a team\<close>








end
